theory Spec2Isabelle
  imports Main
begin

section \<open>Values of the Python program\<close>

text \<open>
  The program is Python 2: a \<open>str\<close> is a sequence of bytes and is modelled as a
  \<^typ>\<open>string\<close>; a \<open>unicode\<close> object is a sequence of code points and is modelled
  as a list of naturals. The input lines, the field names, the cells handed to the CSV
  writer and the contents of files are all \<open>str\<close>; the keys and the string values
  of a decoded JSON document are \<open>unicode\<close>.
\<close>

type_synonym unicode = "nat list"

text \<open>The exceptions that can leave \<open>write_csv\<close>.\<close>

datatype exn = ValueError | AttributeError | IOError

text \<open>
  The objects \<open>json.loads\<close> can return, and \<open>str\<close>, the type of the default that
  \<open>obj.get(k, '')\<close> supplies (the strings \<open>json.loads\<close> of Python 2.7 returns are
  all \<open>unicode\<close>). A \<open>dict\<close> is kept as its items in insertion order, a later
  item for the same key replacing an earlier one. A float is kept as the literal it was
  read from: \<open>write_csv\<close> never looks inside one.
\<close>

datatype pyval =
    PNone
  | PBool bool
  | PInt int
  | PFloat string
  | PStr string
  | PUnicode unicode
  | PList "pyval list"
  | PDict "(unicode \<times> pyval) list"

section \<open>UTF-8\<close>

text \<open>
  \<open>u.encode('utf8')\<close>. A \<open>unicode\<close> holds code points, as on a wide build. The
  codec of Python 2 never fails: it encodes a high surrogate that is followed by a low
  surrogate together with it, as the one character the pair stands for, and any other
  surrogate like every code point of its range.
\<close>

definition utf8_char :: "nat \<Rightarrow> string" where
  "utf8_char c =
     (if c < 0x80 then [char_of c]
      else if c < 0x800 then [char_of (0xC0 + c div 64), char_of (0x80 + c mod 64)]
      else if c < 0x10000 then
        [char_of (0xE0 + c div 4096), char_of (0x80 + c div 64 mod 64),
         char_of (0x80 + c mod 64)]
      else
        [char_of (0xF0 + c div 262144), char_of (0x80 + c div 4096 mod 64),
         char_of (0x80 + c div 64 mod 64), char_of (0x80 + c mod 64)])"

definition high_surrogate :: "nat \<Rightarrow> bool" where
  "high_surrogate c = (0xD800 \<le> c \<and> c \<le> 0xDBFF)"

definition low_surrogate :: "nat \<Rightarrow> bool" where
  "low_surrogate c = (0xDC00 \<le> c \<and> c \<le> 0xDFFF)"

definition join_surrogates :: "nat \<Rightarrow> nat \<Rightarrow> nat" where
  "join_surrogates c d = 0x10000 + ((c - 0xD800) * 1024 + (d - 0xDC00))"

fun encode_utf8 :: "unicode \<Rightarrow> string" where
  "encode_utf8 [] = []"
| "encode_utf8 [c] = utf8_char c"
| "encode_utf8 (c # d # u) =
     (if c < 0x800 then utf8_char c @ encode_utf8 (d # u)
      else if high_surrogate c \<and> low_surrogate d
      then utf8_char (join_surrogates c d) @ encode_utf8 u
      else utf8_char c @ encode_utf8 (d # u))"

definition is_ascii :: "string \<Rightarrow> bool" where
  "is_ascii s = list_all (\<lambda>c. (of_char c :: nat) < 0x80) s"

section \<open>The expressions of the list comprehension\<close>

text \<open>
  A \<open>str\<close> key equals a \<open>unicode\<close> key of a dict exactly when it is pure ASCII
  and has the same code points.
\<close>

definition str_eq_unicode :: "string \<Rightarrow> unicode \<Rightarrow> bool" where
  "str_eq_unicode s u = (is_ascii s \<and> map of_char s = u)"

fun dict_lookup :: "(unicode \<times> pyval) list \<Rightarrow> string \<Rightarrow> pyval option" where
  "dict_lookup [] k = None"
| "dict_lookup ((u, v) # items) k =
     (case dict_lookup items k of
        Some w \<Rightarrow> Some w
      | None \<Rightarrow> if str_eq_unicode k u then Some v else None)"

text \<open>
  \<open>obj.get(k, d)\<close>: only a dict has the method; on every other object the
  attribute lookup raises.
\<close>

fun py_get :: "pyval \<Rightarrow> string \<Rightarrow> pyval \<Rightarrow> exn + pyval" where
  "py_get (PDict items) k d = Inr (case dict_lookup items k of None \<Rightarrow> d | Some v \<Rightarrow> v)"
| "py_get _ k d = Inl AttributeError"

text \<open>
  \<open>v.encode('utf8')\<close>: a \<open>unicode\<close> is encoded; a \<open>str\<close> is first decoded as
  ASCII (a \<open>UnicodeDecodeError\<close>, which is a \<open>ValueError\<close>, when it is not) and
  then encoded, which gives it back; no other object has the method.
\<close>

fun py_encode :: "pyval \<Rightarrow> exn + string" where
  "py_encode (PUnicode u) = Inr (encode_utf8 u)"
| "py_encode (PStr s) = (if is_ascii s then Inr s else Inl ValueError)"
| "py_encode _ = Inl AttributeError"

text \<open>
  \<open>[obj.get(k, '').encode('utf8') for k in fields]\<close>, evaluated left to right; the
  first exception ends it.
\<close>

fun cells :: "pyval \<Rightarrow> string list \<Rightarrow> exn + string list" where
  "cells obj [] = Inr []"
| "cells obj (k # ks) =
     (case py_get obj k (PStr []) of
        Inl e \<Rightarrow> Inl e
      | Inr v \<Rightarrow>
          (case py_encode v of
             Inl e \<Rightarrow> Inl e
           | Inr c \<Rightarrow>
               (case cells obj ks of
                  Inl e \<Rightarrow> Inl e
                | Inr cs \<Rightarrow> Inr (c # cs))))"

section \<open>The CSV writer\<close>

text \<open>
  \<open>csv.writer(out, quoting=csv.QUOTE_ALL)\<close> with the default dialect: delimiter
  \<open>,\<close>, quote character \<open>"\<close> doubled inside a field, line terminator CR LF. The
  writer of Python 2 reads a field as a C string, so a field ends at its first NUL byte.
  The file is taken to be on a system where text mode writes the bytes as they are.
\<close>

definition quotechar :: char where
  "quotechar = CHR 0x22"

definition delimiter :: char where
  "delimiter = CHR 0x2C"

definition lineterminator :: string where
  "lineterminator = [CHR 0x0D, CHR 0x0A]"

definition c_string :: "string \<Rightarrow> string" where
  "c_string s = takeWhile (\<lambda>c. c \<noteq> CHR 0x00) s"

definition double_quotes :: "string \<Rightarrow> string" where
  "double_quotes s = concat (map (\<lambda>c. if c = quotechar then [quotechar, quotechar] else [c]) s)"

definition quoted :: "string \<Rightarrow> string" where
  "quoted s = quotechar # double_quotes (c_string s) @ [quotechar]"

fun join_fields :: "string list \<Rightarrow> string" where
  "join_fields [] = []"
| "join_fields [f] = f"
| "join_fields (f # g # fs) = f @ delimiter # join_fields (g # fs)"

definition csv_line :: "string list \<Rightarrow> string" where
  "csv_line row = join_fields (map quoted row) @ lineterminator"

section \<open>Files\<close>

text \<open>
  A file system maps a path to the contents of the file there; \<open>denied\<close> holds the
  paths that cannot be opened for writing. \<open>open(path, 'w')\<close> creates the file or
  truncates it.
\<close>

record filesystem =
  files :: "string \<rightharpoonup> string"
  denied :: "string set"

definition open_w :: "filesystem \<Rightarrow> string \<Rightarrow> exn + filesystem" where
  "open_w fs path =
     (if path \<in> denied fs then Inl IOError
      else Inr (fs\<lparr>files := (files fs)(path \<mapsto> [])\<rparr>))"

definition file_write :: "filesystem \<Rightarrow> string \<Rightarrow> string \<Rightarrow> filesystem" where
  "file_write fs path s =
     fs\<lparr>files := (files fs)(path \<mapsto> (case files fs path of None \<Rightarrow> s | Some old \<Rightarrow> old @ s))\<rparr>"

definition writerow :: "filesystem \<Rightarrow> string \<Rightarrow> string list \<Rightarrow> filesystem" where
  "writerow fs path row = file_write fs path (csv_line row)"

section \<open>write_csv\<close>

text \<open>
  \<open>json.loads\<close> belongs to the standard library, not to this program: \<open>write_csv\<close>
  takes it as the parameter \<open>loads\<close>, which returns the decoded object or the
  exception raised. The result of \<open>write_csv\<close> is the file system it leaves and the
  exception that escaped it, if any; the \<open>with\<close> statement closes the file on both
  ways out, so what was written before an exception stays in the file. The argument
  \<open>jsonlines\<close> is the list of the lines the iteration yields; a failure to read the
  source and a failure to write to the open file are not modelled.
\<close>

fun write_rows ::
  "(string \<Rightarrow> exn + pyval) \<Rightarrow> filesystem \<Rightarrow> string \<Rightarrow> string list \<Rightarrow> string list
     \<Rightarrow> filesystem \<times> exn option" where
  "write_rows loads fs outcsv flds [] = (fs, None)"
| "write_rows loads fs outcsv flds (line # rest) =
     (case loads line of
        Inl e \<Rightarrow> (fs, Some e)
      | Inr obj \<Rightarrow>
          (case cells obj flds of
             Inl e \<Rightarrow> (fs, Some e)
           | Inr row \<Rightarrow> write_rows loads (writerow fs outcsv row) outcsv flds rest))"

definition write_csv ::
  "(string \<Rightarrow> exn + pyval) \<Rightarrow> filesystem \<Rightarrow> string list \<Rightarrow> string \<Rightarrow> string list
     \<Rightarrow> filesystem \<times> exn option" where
  "write_csv loads fs jsonlines outcsv flds =
     (case open_w fs outcsv of
        Inl e \<Rightarrow> (fs, Some e)
      | Inr fs1 \<Rightarrow> write_rows loads (writerow fs1 outcsv flds) outcsv flds jsonlines)"

section \<open>A decoder for the input lines\<close>

text \<open>
  A model of \<open>json.loads\<close> of Python 2.7 on a \<open>str\<close>, to run \<open>write_csv\<close> on
  concrete lines: the line is decoded as UTF-8, cut into tokens and parsed. Every failure
  of the decoder is a \<open>ValueError\<close> (a \<open>UnicodeDecodeError\<close> is one). The limit on
  the depth of nesting is not modelled. No theorem about \<open>write_csv\<close> below depends
  on this decoder: each holds for every \<open>loads\<close>.
\<close>

subsection \<open>Decoding UTF-8\<close>

text \<open>
  The codec of Python 2.7: sequences of one to four bytes, no overlong form, nothing
  above U+10FFFF; an encoded surrogate is accepted.
\<close>

definition cont :: "nat \<Rightarrow> bool" where
  "cont b = (0x80 \<le> b \<and> b < 0xC0)"

fun utf8_decode :: "nat list \<Rightarrow> unicode option" where
  "utf8_decode [] = Some []"
| "utf8_decode (b0 # bs) =
     (if b0 < 0x80 then map_option ((#) b0) (utf8_decode bs)
      else if 0xC2 \<le> b0 \<and> b0 < 0xE0 then
        (case bs of
           b1 # r \<Rightarrow>
             if cont b1
             then map_option ((#) ((b0 - 0xC0) * 64 + (b1 - 0x80))) (utf8_decode r)
             else None
         | _ \<Rightarrow> None)
      else if 0xE0 \<le> b0 \<and> b0 < 0xF0 then
        (case bs of
           b1 # b2 # r \<Rightarrow>
             if cont b1 \<and> cont b2 \<and> \<not> (b0 = 0xE0 \<and> b1 < 0xA0)
             then map_option ((#) ((b0 - 0xE0) * 4096 + (b1 - 0x80) * 64 + (b2 - 0x80)))
                    (utf8_decode r)
             else None
         | _ \<Rightarrow> None)
      else if 0xF0 \<le> b0 \<and> b0 < 0xF5 then
        (case bs of
           b1 # b2 # b3 # r \<Rightarrow>
             if cont b1 \<and> cont b2 \<and> cont b3 \<and> \<not> (b0 = 0xF0 \<and> b1 < 0x90)
                \<and> \<not> (b0 = 0xF4 \<and> 0x8F < b1)
             then map_option
                    ((#) ((b0 - 0xF0) * 262144 + (b1 - 0x80) * 4096 + (b2 - 0x80) * 64
                          + (b3 - 0x80)))
                    (utf8_decode r)
             else None
         | _ \<Rightarrow> None)
      else None)"

definition decode_utf8 :: "string \<Rightarrow> unicode option" where
  "decode_utf8 s = utf8_decode (map of_char s)"

subsection \<open>Tokens\<close>

text \<open>
  A scanner returns what it read and how many code points it consumed.
  \<open>scanstring\<close> starts after the opening quote; it rejects a raw control character,
  and joins an escaped surrogate pair into one code point.
\<close>

datatype token = TLBrace | TRBrace | TLBracket | TRBracket | TComma | TColon | TValue pyval

definition is_ws :: "nat \<Rightarrow> bool" where
  "is_ws c = (c = 0x20 \<or> c = 0x09 \<or> c = 0x0A \<or> c = 0x0D)"

definition is_digit :: "nat \<Rightarrow> bool" where
  "is_digit c = (0x30 \<le> c \<and> c \<le> 0x39)"

definition hex_val :: "nat \<Rightarrow> nat option" where
  "hex_val c =
     (if 0x30 \<le> c \<and> c \<le> 0x39 then Some (c - 0x30)
      else if 0x61 \<le> c \<and> c \<le> 0x66 then Some (c - 0x61 + 10)
      else if 0x41 \<le> c \<and> c \<le> 0x46 then Some (c - 0x41 + 10)
      else None)"

fun hex4 :: "nat list \<Rightarrow> nat option" where
  "hex4 (a # b # c # d # _) =
     (case (hex_val a, hex_val b, hex_val c, hex_val d) of
        (Some w, Some x, Some y, Some z) \<Rightarrow> Some (((w * 16 + x) * 16 + y) * 16 + z)
      | _ \<Rightarrow> None)"
| "hex4 _ = None"

definition unescape :: "nat \<Rightarrow> nat option" where
  "unescape e =
     (if e = 0x22 \<or> e = 0x5C \<or> e = 0x2F then Some e
      else if e = 0x62 then Some 0x08
      else if e = 0x66 then Some 0x0C
      else if e = 0x6E then Some 0x0A
      else if e = 0x72 then Some 0x0D
      else if e = 0x74 then Some 0x09
      else None)"

definition add_char :: "nat \<Rightarrow> nat \<Rightarrow> (unicode \<times> nat) option \<Rightarrow> (unicode \<times> nat) option" where
  "add_char ch n r = map_option (\<lambda>(s, m). (ch # s, n + m)) r"

fun scanstring :: "nat list \<Rightarrow> (unicode \<times> nat) option" where
  "scanstring [] = None"
| "scanstring (c # cs) =
     (if c = 0x22 then Some ([], 1)
      else if c = 0x5C then
        (case cs of
           [] \<Rightarrow> None
         | e # es \<Rightarrow>
             if e = 0x75 then
               (case hex4 es of
                  None \<Rightarrow> None
                | Some hi \<Rightarrow>
                    if 0xD800 \<le> hi \<and> hi < 0xDC00 \<and> take 2 (drop 4 es) = [0x5C, 0x75] then
                      (case hex4 (drop 6 es) of
                         None \<Rightarrow> None
                       | Some lo \<Rightarrow>
                           if 0xDC00 \<le> lo \<and> lo < 0xE000
                           then add_char (0x10000 + (hi - 0xD800) * 1024 + (lo - 0xDC00)) 12
                                  (scanstring (drop 10 es))
                           else add_char hi 6 (scanstring (drop 4 es)))
                    else add_char hi 6 (scanstring (drop 4 es)))
             else
               (case unescape e of
                  None \<Rightarrow> None
                | Some ch \<Rightarrow> add_char ch 2 (scanstring es)))
      else if c < 0x20 then None
      else add_char c 1 (scanstring cs))"

text \<open>
  A number is \<open>-?(0|[1-9][0-9]*)(\.[0-9]+)?([eE][-+]?[0-9]+)?\<close>, read as far as it
  goes: an \<open>int\<close> when it has neither fraction nor exponent, a \<open>float\<close> otherwise.
\<close>

definition scan_sign :: "nat list \<Rightarrow> nat" where
  "scan_sign cs = (case cs of c # _ \<Rightarrow> if c = 0x2D then 1 else 0 | [] \<Rightarrow> 0)"

definition scan_int :: "nat list \<Rightarrow> nat" where
  "scan_int cs = (case cs of c # _ \<Rightarrow> if c = 0x30 then 1 else length (takeWhile is_digit cs) | [] \<Rightarrow> 0)"

definition scan_frac :: "nat list \<Rightarrow> nat" where
  "scan_frac cs =
     (case cs of
        c # r \<Rightarrow> if c = 0x2E \<and> takeWhile is_digit r \<noteq> [] then 1 + length (takeWhile is_digit r) else 0
      | [] \<Rightarrow> 0)"

definition scan_exp :: "nat list \<Rightarrow> nat" where
  "scan_exp cs =
     (case cs of
        c # r \<Rightarrow>
          if c = 0x65 \<or> c = 0x45 then
            (let sg = (case r of s # _ \<Rightarrow> if s = 0x2B \<or> s = 0x2D then 1 else 0 | [] \<Rightarrow> 0);
                 ds = length (takeWhile is_digit (drop sg r))
             in if ds = 0 then 0 else 1 + sg + ds)
          else 0
      | [] \<Rightarrow> 0)"

definition digits_val :: "nat list \<Rightarrow> nat" where
  "digits_val ds = foldl (\<lambda>n d. 10 * n + (d - 0x30)) 0 ds"

definition scan_number :: "nat list \<Rightarrow> (pyval \<times> nat) option" where
  "scan_number cs =
     (let sg = scan_sign cs;
          n = scan_int (drop sg cs);
          f = scan_frac (drop (sg + n) cs);
          e = scan_exp (drop (sg + n + f) cs)
      in if n = 0 then None
         else if f = 0 \<and> e = 0 then
           Some (PInt ((if sg = 1 then - 1 else 1) * int (digits_val (take n (drop sg cs)))), sg + n)
         else Some (PFloat (map char_of (take (sg + n + f + e) cs)), sg + n + f + e))"

definition literal :: "string \<Rightarrow> nat list \<Rightarrow> bool" where
  "literal w cs = (take (length w) cs = map of_char w)"

definition add_token :: "token \<Rightarrow> token list option \<Rightarrow> token list option" where
  "add_token t r = map_option ((#) t) r"

definition token_at :: "nat \<Rightarrow> nat list \<Rightarrow> (token \<times> nat) option" where
  "token_at c cs =
     (if c = 0x22 then
        (case scanstring cs of
           None \<Rightarrow> None
         | Some (s, n) \<Rightarrow> Some (TValue (PUnicode s), n))
      else if c = 0x7B then Some (TLBrace, 0)
      else if c = 0x7D then Some (TRBrace, 0)
      else if c = 0x5B then Some (TLBracket, 0)
      else if c = 0x5D then Some (TRBracket, 0)
      else if c = 0x2C then Some (TComma, 0)
      else if c = 0x3A then Some (TColon, 0)
      else if literal ''null'' (c # cs) then Some (TValue PNone, 3)
      else if literal ''true'' (c # cs) then Some (TValue (PBool True), 3)
      else if literal ''false'' (c # cs) then Some (TValue (PBool False), 4)
      else if literal ''NaN'' (c # cs) then Some (TValue (PFloat ''NaN''), 2)
      else if literal ''Infinity'' (c # cs) then Some (TValue (PFloat ''Infinity''), 7)
      else if literal ''-Infinity'' (c # cs) then Some (TValue (PFloat ''-Infinity''), 8)
      else
        (case scan_number (c # cs) of
           None \<Rightarrow> None
         | Some (v, n) \<Rightarrow> Some (TValue v, n - 1)))"

fun tokens :: "nat list \<Rightarrow> token list option" where
  "tokens [] = Some []"
| "tokens (c # cs) =
     (if is_ws c then tokens cs
      else
        (case token_at c cs of
           None \<Rightarrow> None
         | Some (t, n) \<Rightarrow> add_token t (tokens (drop n cs))))"

subsection \<open>Parsing\<close>

text \<open>
  The parser keeps the containers that are still open: an array with its elements so
  far, an object with its members so far, and an object that has read a key and waits
  for its value. What may come next is a value, a value or \<open>]\<close> right after
  \<open>[\<close>, a key or \<open>}\<close> right after \<open>{\<close>, a key after a comma, the colon after a
  key, a comma or the closing bracket after a value, or nothing more.
\<close>

datatype frame =
    FArray "pyval list"
  | FObject "(unicode \<times> pyval) list"
  | FMember "(unicode \<times> pyval) list" unicode

datatype expect = Value | FirstValue | FirstKey | Key | Colon | Separator | Finished pyval

fun reduce :: "pyval \<Rightarrow> frame list \<Rightarrow> (expect \<times> frame list) option" where
  "reduce v [] = Some (Finished v, [])"
| "reduce v (FArray vs # st) = Some (Separator, FArray (v # vs) # st)"
| "reduce v (FMember kvs k # st) = Some (Separator, FObject ((k, v) # kvs) # st)"
| "reduce v (FObject kvs # st) = None"

definition open_value :: "frame list \<Rightarrow> token \<Rightarrow> (expect \<times> frame list) option" where
  "open_value st t =
     (case t of
        TValue v \<Rightarrow> reduce v st
      | TLBracket \<Rightarrow> Some (FirstValue, FArray [] # st)
      | TLBrace \<Rightarrow> Some (FirstKey, FObject [] # st)
      | _ \<Rightarrow> None)"

definition member_key :: "frame list \<Rightarrow> token \<Rightarrow> (expect \<times> frame list) option" where
  "member_key st t =
     (case t of
        TValue (PUnicode k) \<Rightarrow>
          (case st of FObject kvs # st' \<Rightarrow> Some (Colon, FMember kvs k # st') | _ \<Rightarrow> None)
      | _ \<Rightarrow> None)"

definition close_array :: "frame list \<Rightarrow> (expect \<times> frame list) option" where
  "close_array st = (case st of FArray vs # st' \<Rightarrow> reduce (PList (rev vs)) st' | _ \<Rightarrow> None)"

definition close_object :: "frame list \<Rightarrow> (expect \<times> frame list) option" where
  "close_object st = (case st of FObject kvs # st' \<Rightarrow> reduce (PDict (rev kvs)) st' | _ \<Rightarrow> None)"

definition shift :: "expect \<Rightarrow> frame list \<Rightarrow> token \<Rightarrow> (expect \<times> frame list) option" where
  "shift ex st t =
     (case ex of
        Value \<Rightarrow> open_value st t
      | FirstValue \<Rightarrow> (case t of TRBracket \<Rightarrow> close_array st | _ \<Rightarrow> open_value st t)
      | FirstKey \<Rightarrow> (case t of TRBrace \<Rightarrow> close_object st | _ \<Rightarrow> member_key st t)
      | Key \<Rightarrow> member_key st t
      | Colon \<Rightarrow> (case t of TColon \<Rightarrow> Some (Value, st) | _ \<Rightarrow> None)
      | Separator \<Rightarrow>
          (case t of
             TComma \<Rightarrow>
               (case st of
                  FArray vs # st' \<Rightarrow> Some (Value, st)
                | FObject kvs # st' \<Rightarrow> Some (Key, st)
                | _ \<Rightarrow> None)
           | TRBracket \<Rightarrow> close_array st
           | TRBrace \<Rightarrow> close_object st
           | _ \<Rightarrow> None)
      | Finished v \<Rightarrow> None)"

fun parse :: "expect \<Rightarrow> frame list \<Rightarrow> token list \<Rightarrow> pyval option" where
  "parse (Finished v) st [] = Some v"
| "parse ex st [] = None"
| "parse ex st (t # ts) =
     (case shift ex st t of None \<Rightarrow> None | Some (ex', st') \<Rightarrow> parse ex' st' ts)"

definition json_loads :: "string \<Rightarrow> exn + pyval" where
  "json_loads s =
     (case decode_utf8 s of
        None \<Rightarrow> Inl ValueError
      | Some u \<Rightarrow>
          (case tokens u of
             None \<Rightarrow> Inl ValueError
           | Some ts \<Rightarrow>
               (case parse Value [] ts of
                  None \<Rightarrow> Inl ValueError
                | Some v \<Rightarrow> Inr v)))"

section \<open>Reading a CSV document\<close>

text \<open>
  A model of \<open>csv.reader\<close> of Python 2 with the default dialect, reading the lines of
  a file opened in binary mode, to state what a document holds. A line of the file ends
  after each LF and at the end of the data. The reader takes the characters of a line
  one by one and then a NUL that marks the end of the line; it returns a row whenever
  that leaves it at the start of a record. A NUL in the data is an error. The reader's
  limit on the length of a field is not modelled.
\<close>

datatype parser_state =
  START_RECORD | START_FIELD | IN_FIELD | IN_QUOTED_FIELD | QUOTE_IN_QUOTED_FIELD | EAT_CRNL

record reader =
  rstate :: parser_state
  rfield :: string
  rfields :: "string list"

definition parse_reset :: reader where
  "parse_reset = \<lparr>rstate = START_RECORD, rfield = [], rfields = []\<rparr>"

definition parse_save_field :: "reader \<Rightarrow> reader" where
  "parse_save_field r = r\<lparr>rfields := rfields r @ [rfield r], rfield := []\<rparr>"

definition parse_add_char :: "reader \<Rightarrow> char \<Rightarrow> reader" where
  "parse_add_char r c = r\<lparr>rfield := rfield r @ [c]\<rparr>"

definition end_of_line :: "char \<Rightarrow> bool" where
  "end_of_line c = (c = CHR 0x0A \<or> c = CHR 0x0D \<or> c = CHR 0x00)"

definition after_line :: "char \<Rightarrow> parser_state" where
  "after_line c = (if c = CHR 0x00 then START_RECORD else EAT_CRNL)"

definition start_field :: "reader \<Rightarrow> char \<Rightarrow> reader option" where
  "start_field r c =
     (if end_of_line c then Some ((parse_save_field r)\<lparr>rstate := after_line c\<rparr>)
      else if c = quotechar then Some (r\<lparr>rstate := IN_QUOTED_FIELD\<rparr>)
      else if c = delimiter then Some (parse_save_field r)
      else Some ((parse_add_char r c)\<lparr>rstate := IN_FIELD\<rparr>))"

definition parse_process_char :: "reader \<Rightarrow> char \<Rightarrow> reader option" where
  "parse_process_char r c =
     (case rstate r of
        START_RECORD \<Rightarrow>
          if c = CHR 0x00 then Some r
          else if c = CHR 0x0A \<or> c = CHR 0x0D then Some (r\<lparr>rstate := EAT_CRNL\<rparr>)
          else start_field (r\<lparr>rstate := START_FIELD\<rparr>) c
      | START_FIELD \<Rightarrow> start_field r c
      | IN_FIELD \<Rightarrow>
          if end_of_line c then Some ((parse_save_field r)\<lparr>rstate := after_line c\<rparr>)
          else if c = delimiter then Some ((parse_save_field r)\<lparr>rstate := START_FIELD\<rparr>)
          else Some (parse_add_char r c)
      | IN_QUOTED_FIELD \<Rightarrow>
          if c = CHR 0x00 then Some r
          else if c = quotechar then Some (r\<lparr>rstate := QUOTE_IN_QUOTED_FIELD\<rparr>)
          else Some (parse_add_char r c)
      | QUOTE_IN_QUOTED_FIELD \<Rightarrow>
          if c = quotechar then Some ((parse_add_char r c)\<lparr>rstate := IN_QUOTED_FIELD\<rparr>)
          else if c = delimiter then Some ((parse_save_field r)\<lparr>rstate := START_FIELD\<rparr>)
          else if end_of_line c then Some ((parse_save_field r)\<lparr>rstate := after_line c\<rparr>)
          else Some ((parse_add_char r c)\<lparr>rstate := IN_FIELD\<rparr>)
      | EAT_CRNL \<Rightarrow>
          if c = CHR 0x0A \<or> c = CHR 0x0D then Some r
          else if c = CHR 0x00 then Some (r\<lparr>rstate := START_RECORD\<rparr>)
          else None)"

fun reader_rows :: "reader \<Rightarrow> string \<Rightarrow> string list list option" where
  "reader_rows r [] =
     (if rfield r \<noteq> [] \<or> rstate r = IN_QUOTED_FIELD then Some [rfields (parse_save_field r)]
      else Some [])"
| "reader_rows r (c # cs) =
     (if c = CHR 0x00 then None
      else
        (case parse_process_char r c of
           None \<Rightarrow> None
         | Some r1 \<Rightarrow>
             if c = CHR 0x0A \<or> cs = [] then
               (case parse_process_char r1 (CHR 0x00) of
                  None \<Rightarrow> None
                | Some r2 \<Rightarrow>
                    if rstate r2 = START_RECORD
                    then map_option ((#) (rfields r2)) (reader_rows parse_reset cs)
                    else reader_rows r2 cs)
             else reader_rows r1 cs))"

definition csv_reader :: "string \<Rightarrow> string list list option" where
  "csv_reader text = reader_rows parse_reset text"

section \<open>Notions used in the statements\<close>

text \<open>
  A record as the data model describes it, relative to the requested fields: a dict in
  which every requested field is absent or has a string for its value.
\<close>

fun string_or_absent :: "pyval option \<Rightarrow> bool" where
  "string_or_absent None = True"
| "string_or_absent (Some (PUnicode u)) = True"
| "string_or_absent (Some _) = False"

fun valid_record :: "string list \<Rightarrow> pyval \<Rightarrow> bool" where
  "valid_record flds (PDict items) = list_all (\<lambda>k. string_or_absent (dict_lookup items k)) flds"
| "valid_record flds _ = False"

definition valid_line :: "(string \<Rightarrow> exn + pyval) \<Rightarrow> string list \<Rightarrow> string \<Rightarrow> bool" where
  "valid_line loads flds line =
     (case loads line of Inl e \<Rightarrow> False | Inr obj \<Rightarrow> valid_record flds obj)"

fun is_dict :: "pyval \<Rightarrow> bool" where
  "is_dict (PDict items) = True"
| "is_dict _ = False"

text \<open>A string in which no high surrogate is followed by a low surrogate.\<close>

fun no_surrogate_pair :: "unicode \<Rightarrow> bool" where
  "no_surrogate_pair [] = True"
| "no_surrogate_pair [c] = True"
| "no_surrogate_pair (c # d # u) =
     (\<not> (high_surrogate c \<and> low_surrogate d) \<and> no_surrogate_pair (d # u))"

text \<open>The values the JSON numbers and booleans decode to.\<close>

fun number_or_boolean :: "pyval \<Rightarrow> bool" where
  "number_or_boolean (PInt n) = True"
| "number_or_boolean (PFloat x) = True"
| "number_or_boolean (PBool b) = True"
| "number_or_boolean _ = False"

text \<open>A line converts when it decodes and the list comprehension gives its row.\<close>

definition converts :: "(string \<Rightarrow> exn + pyval) \<Rightarrow> string list \<Rightarrow> string \<Rightarrow> bool" where
  "converts loads flds line =
     (case loads line of
        Inl e \<Rightarrow> False
      | Inr obj \<Rightarrow> (case cells obj flds of Inl e \<Rightarrow> False | Inr cs \<Rightarrow> True))"

text \<open>
  The loop of \<open>write_csv\<close> without the file: the rows it hands to the writer, and
  the exception that ends it.
\<close>

fun written_rows :: "(string \<Rightarrow> exn + pyval) \<Rightarrow> string list \<Rightarrow> string list \<Rightarrow> string list list" where
  "written_rows loads flds [] = []"
| "written_rows loads flds (line # rest) =
     (case loads line of
        Inl e \<Rightarrow> []
      | Inr obj \<Rightarrow>
          (case cells obj flds of
             Inl e \<Rightarrow> []
           | Inr cs \<Rightarrow> cs # written_rows loads flds rest))"

fun raised :: "(string \<Rightarrow> exn + pyval) \<Rightarrow> string list \<Rightarrow> string list \<Rightarrow> exn option" where
  "raised loads flds [] = None"
| "raised loads flds (line # rest) =
     (case loads line of
        Inl e \<Rightarrow> Some e
      | Inr obj \<Rightarrow>
          (case cells obj flds of
             Inl e \<Rightarrow> Some e
           | Inr cs \<Rightarrow> raised loads flds rest))"

text \<open>
  A document in which every cell is wrapped in quote characters: each line is a
  sequence of cells separated by commas and ended by CR LF; a cell opens with a quote,
  holds any characters with each quote doubled, and closes with a quote. A line without
  cells is CR LF alone.
\<close>

datatype position = LineStart | CellStart | Inside | AfterQuote | AfterCR

fun fully_quoted :: "position \<Rightarrow> string \<Rightarrow> bool" where
  "fully_quoted p [] = (p = LineStart)"
| "fully_quoted p (c # cs) =
     (case p of
        LineStart \<Rightarrow>
          if c = quotechar then fully_quoted Inside cs
          else if c = CHR 0x0D then fully_quoted AfterCR cs
          else False
      | CellStart \<Rightarrow> c = quotechar \<and> fully_quoted Inside cs
      | Inside \<Rightarrow> if c = quotechar then fully_quoted AfterQuote cs else fully_quoted Inside cs
      | AfterQuote \<Rightarrow>
          if c = quotechar then fully_quoted Inside cs
          else if c = delimiter then fully_quoted CellStart cs
          else if c = CHR 0x0D then fully_quoted AfterCR cs
          else False
      | AfterCR \<Rightarrow> c = CHR 0x0A \<and> fully_quoted LineStart cs)"

section \<open>The jobs of the program and some input lines\<close>

text \<open>
  The two jobs the program runs when it is called as a script: source, destination and
  fields. After them, a file system and sample lines for the statements below; a line
  read from a file ends with LF, as \<open>camera_line\<close> does.
\<close>

definition products_fields :: "string list" where
  "products_fields = [''product_name'', ''manufacturer'', ''family'', ''model'', ''announced-date'']"

definition listings_fields :: "string list" where
  "listings_fields = [''title'', ''manufacturer'', ''currency'', ''price'']"

definition inputs :: "(string \<times> string \<times> string list) list" where
  "inputs =
     [(''resources/data/products.txt'', ''products.csv'', products_fields),
      (''resources/data/listings.txt'', ''listings.csv'', listings_fields)]"

definition fs0 :: filesystem where
  "fs0 = \<lparr>files = [''listings.csv'' \<mapsto> ''stale''], denied = {''/proc/listings.csv''}\<rparr>"

definition widget_line :: string where
  "widget_line = ''{\"product_name\": \"Widget\", \"manufacturer\": \"Acme\"}''"

definition camera_line :: string where
  "camera_line =
     ''{\"title\": \"Zoom 10'' @ [CHR 0x5C] @ ''\", black\", \"manufacturer\": \"Acme\", ''
     @ ''\"currency\": \"CAD\", \"price\": \"35.99\"}'' @ [CHR 0x0A]"

definition null_price_line :: string where
  "null_price_line = ''{\"title\": \"Tripod\", \"price\": null}''"

definition number_price_line :: string where
  "number_price_line = ''{\"title\": \"Tripod\", \"price\": 35.99}''"

definition tripod_items :: "pyval \<Rightarrow> (unicode \<times> pyval) list" where
  "tripod_items v =
     [(map of_char ''title'', PUnicode (map of_char ''Tripod'')), (map of_char ''price'', v)]"

definition nul_title_line :: string where
  "nul_title_line = ''{\"title\": \"Tri'' @ [CHR 0x5C] @ ''u0000pod\"}''"

definition surrogates_line :: string where
  "surrogates_line =
     ''{\"title\": \"'' @ [CHR 0xED, CHR 0xA0, CHR 0xBD, CHR 0xED, CHR 0xB8, CHR 0x80] @ ''\"}''"

definition widget_items :: "(unicode \<times> pyval) list" where
  "widget_items =
     [(map of_char ''product_name'', PUnicode (map of_char ''Widget'')),
      (map of_char ''manufacturer'', PUnicode (map of_char ''Acme''))]"

definition cafe_line :: string where
  "cafe_line =
     ''{\"title\": \"Caf'' @ [CHR 0xC3, CHR 0xA9] @ '' cr'' @ [CHR 0xC3, CHR 0xA8]
     @ ''me\", \"price\": \"3,50\"}''"

definition in_stock_line :: string where
  "in_stock_line = ''{\"title\": \"Tripod\", \"price\": true}''"

section \<open>The loop and the file\<close>

lemma cells_length: "cells obj flds = Inr cs \<Longrightarrow> length cs = length flds"
  by (induction flds arbitrary: cs) (auto split: sum.splits)

lemma writerow_eq:
  "files fs outcsv = Some t \<Longrightarrow>
   writerow fs outcsv cs = fs\<lparr>files := (files fs)(outcsv \<mapsto> t @ csv_line cs)\<rparr>"
  by (simp add: writerow_def file_write_def)

lemma write_rows_eq:
  "files fs outcsv = Some t \<Longrightarrow>
   write_rows loads fs outcsv flds ls =
     (fs\<lparr>files := (files fs)(outcsv \<mapsto> t @ concat (map csv_line (written_rows loads flds ls)))\<rparr>,
      raised loads flds ls)"
proof (induction ls arbitrary: fs t)
  case Nil
  then show ?case by (simp add: fun_upd_idem)
next
  case (Cons l ls)
  show ?case
  proof (cases "loads l")
    case (Inl e)
    then show ?thesis using Cons.prems by (simp add: fun_upd_idem)
  next
    case (Inr obj)
    show ?thesis
    proof (cases "cells obj flds")
      case (Inl e)
      then show ?thesis using Inr Cons.prems by (simp add: fun_upd_idem)
    next
      case cs: (Inr cs)
      let ?fs = "fs\<lparr>files := (files fs)(outcsv \<mapsto> t @ csv_line cs)\<rparr>"
      have f: "files ?fs outcsv = Some (t @ csv_line cs)" by simp
      have "write_rows loads fs outcsv flds (l # ls) = write_rows loads ?fs outcsv flds ls"
        using Inr cs writerow_eq [OF Cons.prems] by simp
      also have "\<dots> =
         (?fs\<lparr>files := (files ?fs)(outcsv \<mapsto>
              (t @ csv_line cs) @ concat (map csv_line (written_rows loads flds ls)))\<rparr>,
          raised loads flds ls)"
        by (rule Cons.IH [OF f])
      also have "\<dots> =
         (fs\<lparr>files := (files fs)(outcsv \<mapsto>
              t @ concat (map csv_line (written_rows loads flds (l # ls))))\<rparr>,
          raised loads flds (l # ls))"
        using Inr cs by simp
      finally show ?thesis .
    qed
  qed
qed

lemma write_csv_eq:
  "outcsv \<notin> denied fs \<Longrightarrow>
   write_csv loads fs jsonlines outcsv flds =
     (fs\<lparr>files := (files fs)(outcsv \<mapsto> concat (map csv_line (flds # written_rows loads flds jsonlines)))\<rparr>,
      raised loads flds jsonlines)"
proof -
  assume w: "outcsv \<notin> denied fs"
  let ?fs1 = "fs\<lparr>files := (files fs)(outcsv \<mapsto> [])\<rparr>"
  have f: "files (writerow ?fs1 outcsv flds) outcsv = Some (csv_line flds)"
    by (simp add: writerow_def file_write_def)
  have g: "writerow ?fs1 outcsv flds = fs\<lparr>files := (files fs)(outcsv \<mapsto> csv_line flds)\<rparr>"
    by (simp add: writerow_def file_write_def)
  have "write_csv loads fs jsonlines outcsv flds
          = write_rows loads (writerow ?fs1 outcsv flds) outcsv flds jsonlines"
    using w by (simp add: write_csv_def open_w_def)
  also have "\<dots> = ((writerow ?fs1 outcsv flds)\<lparr>files := (files (writerow ?fs1 outcsv flds))(outcsv \<mapsto>
       csv_line flds @ concat (map csv_line (written_rows loads flds jsonlines)))\<rparr>,
      raised loads flds jsonlines)"
    by (rule write_rows_eq [OF f])
  also have "\<dots> = (fs\<lparr>files := (files fs)(outcsv \<mapsto> concat (map csv_line (flds # written_rows loads flds jsonlines)))\<rparr>,
      raised loads flds jsonlines)"
    unfolding g by simp
  finally show ?thesis .
qed

lemma write_csv_denied:
  "outcsv \<in> denied fs \<Longrightarrow> write_csv loads fs jsonlines outcsv flds = (fs, Some IOError)"
  by (simp add: write_csv_def open_w_def)

lemma written_rows_cells: "list_all (\<lambda>r. length r = length flds) (written_rows loads flds ls)"
  by (induction ls) (auto split: sum.splits simp add: cells_length)

lemma converts_append:
  "list_all (converts loads flds) pre \<Longrightarrow>
   written_rows loads flds (pre @ rest) = written_rows loads flds pre @ written_rows loads flds rest
   \<and> raised loads flds (pre @ rest) = raised loads flds rest
   \<and> length (written_rows loads flds pre) = length pre"
  by (induction pre) (auto simp add: converts_def split: sum.splits)

lemma converts_all:
  "list_all (converts loads flds) ls \<Longrightarrow>
   raised loads flds ls = None \<and> length (written_rows loads flds ls) = length ls"
  using converts_append [of loads flds ls "[]"] by simp

lemma valid_record_cells:
  "list_all (\<lambda>k. string_or_absent (dict_lookup items k)) flds \<Longrightarrow>
   \<exists>cs. cells (PDict items) flds = Inr cs"
proof (induction flds)
  case Nil
  then show ?case by simp
next
  case (Cons k ks)
  then obtain cs where cs: "cells (PDict items) ks = Inr cs" by auto
  have "string_or_absent (dict_lookup items k)" using Cons.prems by simp
  then show ?case using cs
    by (cases "dict_lookup items k" rule: string_or_absent.cases) (auto simp add: is_ascii_def)
qed

lemma valid_converts: "valid_line loads flds l \<Longrightarrow> converts loads flds l"
proof -
  assume v: "valid_line loads flds l"
  then obtain obj where o: "loads l = Inr obj" "valid_record flds obj"
    by (auto simp add: valid_line_def split: sum.splits)
  then obtain items where i: "obj = PDict items" by (cases obj) auto
  then show ?thesis using o valid_record_cells [of items flds]
    by (auto simp add: converts_def)
qed

lemma cells_nth:
  "cells (PDict items) flds = Inr cs \<Longrightarrow> i < length flds \<Longrightarrow>
   (dict_lookup items (flds ! i) = None \<longrightarrow> cs ! i = [])
   \<and> (\<forall>u. dict_lookup items (flds ! i) = Some (PUnicode u) \<longrightarrow> cs ! i = encode_utf8 u)"
proof (induction flds arbitrary: cs i)
  case Nil
  then show ?case by simp
next
  case (Cons k ks)
  then show ?case
    by (cases i) (auto split: sum.splits option.splits simp add: is_ascii_def)
qed

lemma cells_append:
  "cells obj (ks @ ks') =
     (case cells obj ks of
        Inl e \<Rightarrow> Inl e
      | Inr cs \<Rightarrow> (case cells obj ks' of Inl e \<Rightarrow> Inl e | Inr cs' \<Rightarrow> Inr (cs @ cs')))"
  by (induction ks) (auto split: sum.splits)

lemma cells_fail:
  "k \<in> set flds \<Longrightarrow> py_get obj k (PStr []) = Inr v \<Longrightarrow> py_encode v = Inl e \<Longrightarrow>
   \<exists>e'. cells obj flds = Inl e'"
  by (induction flds) (auto split: sum.splits)

lemma written_rows_stop:
  "\<not> converts loads flds line \<Longrightarrow>
   written_rows loads flds (pre @ line # post) = written_rows loads flds pre"
  by (induction pre) (auto simp add: converts_def split: sum.splits)

lemma raised_stop:
  "\<not> converts loads flds line \<Longrightarrow>
   raised loads flds (pre @ line # post) =
     (case raised loads flds pre of Some e \<Rightarrow> Some e | None \<Rightarrow> raised loads flds [line])"
  by (induction pre) (auto simp add: converts_def split: sum.splits)

lemma write_csv_fails:
  "raised loads flds jsonlines \<noteq> None \<Longrightarrow>
   snd (write_csv loads fs jsonlines outcsv flds) \<noteq> None"
  by (cases "outcsv \<in> denied fs") (simp_all add: write_csv_eq write_csv_denied)

lemma converts_rows:
  "list_all (converts loads flds) ls \<Longrightarrow>
   list_all2 (\<lambda>l r. \<exists>obj. loads l = Inr obj \<and> cells obj flds = Inr r) ls
     (written_rows loads flds ls)"
  by (induction ls) (auto simp add: converts_def split: sum.splits)

lemma valid_lines_convert:
  "list_all (valid_line loads flds) ls \<Longrightarrow> list_all (converts loads flds) ls"
  by (induction ls) (simp_all add: valid_converts)

lemma written_rows_nth:
  assumes "list_all (converts loads flds) ls" and "j < length ls" and "loads (ls ! j) = Inr obj"
  shows "cells obj flds = Inr (written_rows loads flds ls ! j)"
proof -
  have "\<exists>obj'. loads (ls ! j) = Inr obj' \<and> cells obj' flds = Inr (written_rows loads flds ls ! j)"
    using list_all2_nthD [OF converts_rows [OF assms(1)] assms(2)] by simp
  then show ?thesis using assms(3) by simp
qed

lemma non_dict_cells:
  "\<not> is_dict obj \<Longrightarrow> flds \<noteq> [] \<Longrightarrow> cells obj flds = Inl AttributeError"
  by (cases flds; cases obj) simp_all

section \<open>Reading back what the writer wrote\<close>

lemmas reader_defs =
  parse_process_char_def start_field_def parse_save_field_def parse_add_char_def
  end_of_line_def after_line_def quotechar_def delimiter_def

lemma double_quotes_Cons:
  "double_quotes (c # s) = (if c = quotechar then [quotechar, quotechar] else [c]) @ double_quotes s"
  by (simp add: double_quotes_def)

lemma double_quotes_Nil: "double_quotes [] = []"
  by (simp add: double_quotes_def)

lemma reader_rows_body:
  "CHR 0x00 \<notin> set s \<Longrightarrow> rest \<noteq> [] \<Longrightarrow>
   reader_rows \<lparr>rstate = IN_QUOTED_FIELD, rfield = f, rfields = fs\<rparr> (double_quotes s @ rest)
     = reader_rows \<lparr>rstate = IN_QUOTED_FIELD, rfield = f @ s, rfields = fs\<rparr> rest"
proof (induction s arbitrary: f)
  case Nil
  then show ?case by (simp add: double_quotes_Nil)
next
  case (Cons c s)
  have nz: "c \<noteq> CHR 0x00" and s0: "CHR 0x00 \<notin> set s" using Cons.prems(1) by auto
  have ne: "double_quotes s @ rest \<noteq> []" using Cons.prems(2) by simp
  have ih: "reader_rows \<lparr>rstate = IN_QUOTED_FIELD, rfield = (f @ [c]), rfields = fs\<rparr> (double_quotes s @ rest)
     = reader_rows \<lparr>rstate = IN_QUOTED_FIELD, rfield = (f @ [c]) @ s, rfields = fs\<rparr> rest"
    by (rule Cons.IH [OF s0 Cons.prems(2)])
  show ?case
  proof (cases "c = quotechar")
    case True
    then show ?thesis using ih Cons.prems(2)
      by (simp add: double_quotes_Cons reader_defs)
  next
    case False
    then show ?thesis using ih Cons.prems(2) nz
      by (cases "c = CHR 0x0A") (simp_all add: double_quotes_Cons reader_defs)
  qed
qed

lemma c_string_no_nul: "CHR 0x00 \<notin> set (c_string s)"
  unfolding c_string_def by (induction s) auto

lemma reader_rows_cell:
  assumes "st = START_RECORD \<or> st = START_FIELD" and "tail \<noteq> []"
  shows "reader_rows \<lparr>rstate = st, rfield = [], rfields = fs\<rparr> (quoted cell @ tail)
     = reader_rows \<lparr>rstate = QUOTE_IN_QUOTED_FIELD, rfield = c_string cell, rfields = fs\<rparr> tail"
proof -
  have b: "reader_rows \<lparr>rstate = IN_QUOTED_FIELD, rfield = [], rfields = fs\<rparr>
             (double_quotes (c_string cell) @ quotechar # tail)
     = reader_rows \<lparr>rstate = IN_QUOTED_FIELD, rfield = [] @ c_string cell, rfields = fs\<rparr> (quotechar # tail)"
    by (rule reader_rows_body [OF c_string_no_nul]) simp
  have o: "reader_rows \<lparr>rstate = st, rfield = [], rfields = fs\<rparr> (quoted cell @ tail)
     = reader_rows \<lparr>rstate = IN_QUOTED_FIELD, rfield = [], rfields = fs\<rparr>
             (double_quotes (c_string cell) @ quotechar # tail)"
    using assms(1) by (auto simp add: quoted_def reader_defs)
  have c: "reader_rows \<lparr>rstate = IN_QUOTED_FIELD, rfield = c_string cell, rfields = fs\<rparr> (quotechar # tail)
     = reader_rows \<lparr>rstate = QUOTE_IN_QUOTED_FIELD, rfield = c_string cell, rfields = fs\<rparr> tail"
    using assms(2) by (simp add: reader_defs)
  show ?thesis using o b c by simp
qed

lemma reader_rows_row:
  assumes "st = START_RECORD \<or> st = START_FIELD"
  shows "reader_rows \<lparr>rstate = st, rfield = [], rfields = fs\<rparr>
           (join_fields (map quoted (c # cs)) @ lineterminator @ rest)
     = map_option ((#) (fs @ map c_string (c # cs))) (reader_rows parse_reset rest)"
  using assms
proof (induction cs arbitrary: c fs st)
  case Nil
  have "reader_rows \<lparr>rstate = st, rfield = [], rfields = fs\<rparr> (quoted c @ lineterminator @ rest)
     = reader_rows \<lparr>rstate = QUOTE_IN_QUOTED_FIELD, rfield = c_string c, rfields = fs\<rparr> (lineterminator @ rest)"
    by (rule reader_rows_cell [OF Nil.prems]) (simp add: lineterminator_def)
  then show ?case
    by (simp add: lineterminator_def reader_defs)
next
  case (Cons d ds)
  have "reader_rows \<lparr>rstate = st, rfield = [], rfields = fs\<rparr>
          (quoted c @ delimiter # join_fields (map quoted (d # ds)) @ lineterminator @ rest)
     = reader_rows \<lparr>rstate = QUOTE_IN_QUOTED_FIELD, rfield = c_string c, rfields = fs\<rparr>
          (delimiter # join_fields (map quoted (d # ds)) @ lineterminator @ rest)"
    by (rule reader_rows_cell [OF Cons.prems]) simp
  also have "\<dots> = reader_rows \<lparr>rstate = START_FIELD, rfield = [], rfields = fs @ [c_string c]\<rparr>
          (join_fields (map quoted (d # ds)) @ lineterminator @ rest)"
    by (simp add: reader_defs lineterminator_def)
  also have "\<dots> = map_option ((#) ((fs @ [c_string c]) @ map c_string (d # ds))) (reader_rows parse_reset rest)"
    by (rule Cons.IH) simp
  finally show ?case by simp
qed

lemma reader_rows_line:
  "reader_rows parse_reset (csv_line row @ rest)
     = map_option ((#) (map c_string row)) (reader_rows parse_reset rest)"
proof (cases row)
  case Nil
  then show ?thesis
    by (simp add: csv_line_def lineterminator_def parse_reset_def reader_defs)
next
  case (Cons c cs)
  have "reader_rows \<lparr>rstate = START_RECORD, rfield = [], rfields = []\<rparr>
           (join_fields (map quoted (c # cs)) @ lineterminator @ rest)
     = map_option ((#) ([] @ map c_string (c # cs))) (reader_rows parse_reset rest)"
    by (rule reader_rows_row) simp
  then show ?thesis using Cons by (simp add: csv_line_def parse_reset_def)
qed

lemma csv_reader_lines:
  "csv_reader (concat (map csv_line rows)) = Some (map (map c_string) rows)"
  unfolding csv_reader_def
proof (induction rows)
  case Nil
  then show ?case by (simp add: parse_reset_def)
next
  case (Cons r rs)
  then show ?case by (simp add: reader_rows_line)
qed

lemma read_back:
  assumes "outcsv \<notin> denied fs"
  shows "files (fst (write_csv loads fs jsonlines outcsv flds)) outcsv
           = Some (concat (map csv_line (flds # written_rows loads flds jsonlines)))
       \<and> csv_reader (concat (map csv_line (flds # written_rows loads flds jsonlines)))
           = Some (map (map c_string) (flds # written_rows loads flds jsonlines))"
  using assms csv_reader_lines [of "flds # written_rows loads flds jsonlines"]
  by (simp add: write_csv_eq)

section \<open>Documents of quoted cells\<close>

lemma fully_quoted_body:
  "fully_quoted Inside (double_quotes s @ rest) = fully_quoted Inside rest"
  by (induction s) (simp_all add: double_quotes_Cons double_quotes_Nil)

lemma fully_quoted_cell:
  "p = LineStart \<or> p = CellStart \<Longrightarrow>
   fully_quoted p (quoted cell @ rest) = fully_quoted AfterQuote rest"
  using fully_quoted_body [of "c_string cell" "quotechar # rest"]
  by (auto simp add: quoted_def)

lemma fully_quoted_row:
  "p = LineStart \<or> p = CellStart \<Longrightarrow>
   fully_quoted p (join_fields (map quoted (c # cs)) @ lineterminator @ rest)
     = fully_quoted LineStart rest"
proof (induction cs arbitrary: c p)
  case Nil
  then show ?case
    by (simp add: fully_quoted_cell) (simp add: lineterminator_def quotechar_def delimiter_def)
next
  case (Cons d ds)
  have "fully_quoted p (quoted c @ delimiter # join_fields (map quoted (d # ds)) @ lineterminator @ rest)
      = fully_quoted AfterQuote (delimiter # join_fields (map quoted (d # ds)) @ lineterminator @ rest)"
    by (rule fully_quoted_cell [OF Cons.prems])
  also have "\<dots> = fully_quoted CellStart (join_fields (map quoted (d # ds)) @ lineterminator @ rest)"
    by (simp add: quotechar_def delimiter_def)
  also have "\<dots> = fully_quoted LineStart rest"
    by (rule Cons.IH) simp
  finally show ?case by simp
qed

lemma fully_quoted_line:
  "fully_quoted LineStart (csv_line row @ rest) = fully_quoted LineStart rest"
proof (cases row)
  case Nil
  then show ?thesis by (simp add: csv_line_def lineterminator_def quotechar_def)
next
  case (Cons c cs)
  then show ?thesis using fully_quoted_row [of LineStart c cs rest] by (simp add: csv_line_def)
qed

lemma fully_quoted_lines: "fully_quoted LineStart (concat (map csv_line rows))"
  by (induction rows) (simp_all add: fully_quoted_line)

section \<open>Decoding what was encoded\<close>

lemma split3:
  fixes c :: nat
  shows "c div 4096 * 4096 + c div 64 mod 64 * 64 + c mod 64 = c"
proof -
  have a: "c div 64 * 64 + c mod 64 = c" by simp
  have b: "c div 64 div 64 * 64 + c div 64 mod 64 = c div 64" by simp
  have q: "c div 64 div 64 = c div 4096" by (simp add: div_mult2_eq [symmetric])
  have "c div 4096 * 4096 + c div 64 mod 64 * 64 = (c div 64 div 64 * 64 + c div 64 mod 64) * 64"
    unfolding q by (simp add: distrib_right)
  then have "c div 4096 * 4096 + c div 64 mod 64 * 64 = c div 64 * 64" unfolding b .
  then show ?thesis using a by simp
qed

lemma split4:
  fixes c :: nat
  shows "c div 262144 * 262144 + c div 4096 mod 64 * 4096 + c div 64 mod 64 * 64 + c mod 64 = c"
proof -
  have b: "c div 4096 div 64 * 64 + c div 4096 mod 64 = c div 4096" by simp
  have q: "c div 4096 div 64 = c div 262144" by (simp add: div_mult2_eq [symmetric])
  have "c div 262144 * 262144 + c div 4096 mod 64 * 4096 = (c div 4096 div 64 * 64 + c div 4096 mod 64) * 4096"
    unfolding q by (simp add: distrib_right)
  then have "c div 262144 * 262144 + c div 4096 mod 64 * 4096 = c div 4096 * 4096" unfolding b .
  then show ?thesis using split3 [of c] by simp
qed

lemma low3:
  fixes c :: nat
  assumes "0x800 \<le> c" "c div 4096 = 0"
  shows "0x20 \<le> c div 64 mod 64"
proof -
  have "c div 64 div 64 = 0" using assms(2) by (simp add: div_mult2_eq [symmetric])
  then have "c div 64 < 64" by (simp add: div_eq_0_iff)
  then have "c div 64 mod 64 = c div 64" by simp
  moreover have "0x800 div 64 \<le> c div 64" using assms(1) by (rule div_le_mono)
  ultimately show ?thesis by simp
qed

lemma low4:
  fixes c :: nat
  assumes "0x10000 \<le> c" "c div 262144 = 0"
  shows "0x10 \<le> c div 4096 mod 64"
proof -
  have "c div 4096 div 64 = 0" using assms(2) by (simp add: div_mult2_eq [symmetric])
  then have "c div 4096 < 64" by (simp add: div_eq_0_iff)
  then have "c div 4096 mod 64 = c div 4096" by simp
  moreover have "0x10000 div 4096 \<le> c div 4096" using assms(1) by (rule div_le_mono)
  ultimately show ?thesis by simp
qed

lemma high4:
  fixes c :: nat
  assumes "c < 0x110000" "c div 262144 = 4"
  shows "c div 4096 mod 64 \<le> 0x0F"
proof -
  have b: "c div 4096 div 64 * 64 + c div 4096 mod 64 = c div 4096" by simp
  have q: "c div 4096 div 64 = 4" using assms(2) by (simp add: div_mult2_eq [symmetric])
  have "c div 4096 \<le> 0x10FFFF div 4096" using assms(1) by (intro div_le_mono) simp
  then have "c div 4096 \<le> 271" by simp
  then show ?thesis using b unfolding q by simp
qed

lemma div_bounds:
  fixes c :: nat
  shows "c < 0x800 \<Longrightarrow> c div 64 < 32" and "c < 0x10000 \<Longrightarrow> c div 4096 < 16"
    and "c < 0x110000 \<Longrightarrow> c div 262144 < 5" and "0x80 \<le> c \<Longrightarrow> 2 \<le> c div 64"
proof -
  show "c < 0x800 \<Longrightarrow> c div 64 < 32" by (simp add: less_mult_imp_div_less)
  show "c < 0x10000 \<Longrightarrow> c div 4096 < 16" by (simp add: less_mult_imp_div_less)
  show "c < 0x110000 \<Longrightarrow> c div 262144 < 5" by (simp add: less_mult_imp_div_less)
  show "0x80 \<le> c \<Longrightarrow> 2 \<le> c div 64" using div_le_mono [of "0x80" c 64] by simp
qed


lemma utf8_decode_1:
  assumes "c < 0x80"
  shows "utf8_decode (map of_char (utf8_char c) @ bs) = map_option ((#) c) (utf8_decode bs)"
  using assms by (simp add: utf8_char_def)

lemma utf8_decode_2:
  assumes "0x80 \<le> c" "c < 0x800"
  shows "utf8_decode (map of_char (utf8_char c) @ bs) = map_option ((#) c) (utf8_decode bs)"
proof -
  have a: "(0xC0 + c div 64) mod 256 = 0xC0 + c div 64" using div_bounds(1) [OF assms(2)] by simp
  have b: "(0x80 + c mod 64) mod 256 = 0x80 + c mod 64" by simp
  have c1: "0xC2 \<le> 0xC0 + c div 64" "0xC0 + c div 64 < 0xE0"
    using div_bounds(1) [OF assms(2)] div_bounds(4) [OF assms(1)] by simp_all
  have d: "(0xC0 + c div 64 - 0xC0) * 64 + (0x80 + c mod 64 - 0x80) = c" by simp
  show ?thesis using assms c1 d
    by (simp add: utf8_char_def a b cont_def)
qed

lemma utf8_decode_3:
  assumes "0x800 \<le> c" "c < 0x10000"
  shows "utf8_decode (map of_char (utf8_char c) @ bs) = map_option ((#) c) (utf8_decode bs)"
proof -
  define x3 where "x3 = c div 4096"
  define x2 where "x2 = c div 64 mod 64"
  define x1 where "x1 = c mod 64"
  have c_eq: "x3 * 4096 + x2 * 64 + x1 = c" unfolding x3_def x2_def x1_def by (rule split3)
  have bnd: "x3 < 16" "x2 < 64" "x1 < 64"
    unfolding x3_def x2_def x1_def using div_bounds(2) [OF assms(2)] by simp_all
  have lo: "x3 = 0 \<Longrightarrow> 0x20 \<le> x2" unfolding x3_def x2_def using low3 [OF assms(1)] by simp
  have ch: "utf8_char c = [char_of (0xE0 + x3), char_of (0x80 + x2), char_of (0x80 + x1)]"
    using assms unfolding x3_def x2_def x1_def by (simp add: utf8_char_def)
  have m: "(0xE0 + x3) mod 256 = 0xE0 + x3" "(0x80 + x2) mod 256 = 0x80 + x2"
          "(0x80 + x1) mod 256 = 0x80 + x1" using bnd by simp_all
  show ?thesis unfolding ch using bnd lo c_eq
    by (auto simp add: m cont_def)
qed

lemma utf8_decode_4:
  assumes "0x10000 \<le> c" "c < 0x110000"
  shows "utf8_decode (map of_char (utf8_char c) @ bs) = map_option ((#) c) (utf8_decode bs)"
proof -
  define x4 where "x4 = c div 262144"
  define x3 where "x3 = c div 4096 mod 64"
  define x2 where "x2 = c div 64 mod 64"
  define x1 where "x1 = c mod 64"
  have c_eq: "x4 * 262144 + x3 * 4096 + x2 * 64 + x1 = c"
    unfolding x4_def x3_def x2_def x1_def by (rule split4)
  have bnd: "x4 < 5" "x3 < 64" "x2 < 64" "x1 < 64"
    unfolding x4_def x3_def x2_def x1_def using div_bounds(3) [OF assms(2)] by simp_all
  have lo: "x4 = 0 \<Longrightarrow> 0x10 \<le> x3" unfolding x4_def x3_def using low4 [OF assms(1)] by simp
  have hi: "x4 = 4 \<Longrightarrow> x3 \<le> 0x0F" unfolding x4_def x3_def using high4 [OF assms(2)] by simp
  have ch: "utf8_char c = [char_of (0xF0 + x4), char_of (0x80 + x3), char_of (0x80 + x2),
                           char_of (0x80 + x1)]"
    using assms unfolding x4_def x3_def x2_def x1_def by (simp add: utf8_char_def)
  have m: "(0xF0 + x4) mod 256 = 0xF0 + x4" "(0x80 + x3) mod 256 = 0x80 + x3"
          "(0x80 + x2) mod 256 = 0x80 + x2" "(0x80 + x1) mod 256 = 0x80 + x1"
    using bnd by simp_all
  show ?thesis unfolding ch using bnd lo hi c_eq
    by (auto simp add: m cont_def)
qed

lemma utf8_decode_char:
  assumes "c < 0x110000"
  shows "utf8_decode (map of_char (utf8_char c) @ bs) = map_option ((#) c) (utf8_decode bs)"
proof -
  consider "c < 0x80" | "0x80 \<le> c \<and> c < 0x800" | "0x800 \<le> c \<and> c < 0x10000" | "0x10000 \<le> c"
    by linarith
  then show ?thesis
    using assms utf8_decode_1 utf8_decode_2 utf8_decode_3 utf8_decode_4 by cases blast+
qed

lemma encode_utf8_single: "encode_utf8 [c] = utf8_char c"
  by simp

lemma encode_utf8_step:
  "\<not> (high_surrogate c \<and> low_surrogate d) \<Longrightarrow>
   encode_utf8 (c # d # u) = utf8_char c @ encode_utf8 (d # u)"
  by auto

lemma encode_utf8_chars:
  "no_surrogate_pair u \<Longrightarrow> encode_utf8 u = concat (map utf8_char u)"
proof (induction u rule: no_surrogate_pair.induct)
  case 1
  show ?case by simp
next
  case (2 c)
  show ?case by (simp only: encode_utf8_single) simp
next
  case (3 c d u)
  have n: "\<not> (high_surrogate c \<and> low_surrogate d)" and p: "no_surrogate_pair (d # u)"
    using "3.prems" by simp_all
  have "encode_utf8 (c # d # u) = utf8_char c @ encode_utf8 (d # u)"
    by (rule encode_utf8_step [OF n])
  also have "\<dots> = utf8_char c @ concat (map utf8_char (d # u))"
    by (simp only: "3.IH" [OF p])
  finally show ?case by simp
qed

lemma decode_chars:
  "list_all (\<lambda>c. c < 0x110000) u \<Longrightarrow>
   utf8_decode (map of_char (concat (map utf8_char u))) = Some u"
  by (induction u) (simp_all add: utf8_decode_char)

lemma decode_encode_utf8:
  assumes "list_all (\<lambda>c. c < 0x110000) u" and "no_surrogate_pair u"
  shows "decode_utf8 (encode_utf8 u) = Some u"
proof -
  have "encode_utf8 u = concat (map utf8_char u)" by (rule encode_utf8_chars [OF assms(2)])
  then show ?thesis using decode_chars [OF assms(1)] by (simp add: decode_utf8_def)
qed


lemma char_of_nul: "(CHR 0x00 = char_of (n::nat)) = (n mod 256 = 0)"
  using char_of_eq_iff [of n "CHR 0x00"] by (auto simp add: take_bit_eq_mod)

lemma utf8_char_no_nul:
  assumes "0 < c" "c < 0x110000"
  shows "CHR 0x00 \<notin> set (utf8_char c)"
proof -
  have m: "\<And>x. x < 64 \<Longrightarrow> (0x80 + x) mod 256 = 0x80 + (x::nat)" by simp
  have b: "c div 4096 mod 64 < 64" "c div 64 mod 64 < 64" "c mod 64 < 64" by simp_all
  have h: "c < 0x800 \<Longrightarrow> (0xC0 + c div 64) mod 256 = 0xC0 + c div 64"
          "c < 0x10000 \<Longrightarrow> (0xE0 + c div 4096) mod 256 = 0xE0 + c div 4096"
          "(0xF0 + c div 262144) mod 256 = 0xF0 + c div 262144"
    using div_bounds(1,2) [of c] div_bounds(3) [OF assms(2)] by simp_all
  have l: "c < 0x80 \<Longrightarrow> c mod 256 = c" by simp
  show ?thesis using assms(1) h l
    by (simp add: utf8_char_def char_of_nul m [OF b(1)] m [OF b(2)] m [OF b(3)])
qed

lemma chars_no_nul:
  "list_all (\<lambda>c. 0 < c \<and> c < 0x110000) u \<Longrightarrow>
   CHR 0x00 \<notin> set (concat (map utf8_char u))"
  by (induction u) (simp_all add: utf8_char_no_nul)

lemma encode_utf8_no_nul:
  assumes "list_all (\<lambda>c. 0 < c \<and> c < 0x110000) u" and "no_surrogate_pair u"
  shows "CHR 0x00 \<notin> set (encode_utf8 u)"
proof -
  have "encode_utf8 u = concat (map utf8_char u)" by (rule encode_utf8_chars [OF assms(2)])
  then show ?thesis using chars_no_nul [OF assms(1)] by simp
qed

lemma c_string_id: "CHR 0x00 \<notin> set s \<Longrightarrow> c_string s = s"
  unfolding c_string_def by (induction s) auto

text \<open>The equations that evaluate the decoder on a line.\<close>

lemmas json_eval =
  json_loads_def decode_utf8_def token_at_def is_ws_def literal_def add_token_def
  hex_val_def unescape_def add_char_def shift_def open_value_def member_key_def
  close_object_def close_array_def cont_def

section \<open>The claims\<close>

text \<open>
  C1. When the destination opens and every input line decodes to a record whose
  requested fields are absent or strings, \<open>write_csv\<close> returns, and the document it
  leaves holds one row more than there are input lines; for no input line at all the
  document is the quoted header row alone.
\<close>

theorem row_count:
  assumes "outcsv \<notin> denied fs"
    and "list_all (valid_line loads flds) jsonlines"
  shows "snd (write_csv loads fs jsonlines outcsv flds) = None
       \<and> (\<exists>text rows. files (fst (write_csv loads fs jsonlines outcsv flds)) outcsv = Some text
             \<and> csv_reader text = Some rows
             \<and> length rows = length jsonlines + 1
             \<and> (jsonlines = [] \<longrightarrow> text = csv_line flds \<and> rows = [map c_string flds]))"
proof -
  let ?W = "written_rows loads flds jsonlines"
  have c: "list_all (converts loads flds) jsonlines"
    by (rule valid_lines_convert [OF assms(2)])
  have r: "raised loads flds jsonlines = None" and l: "length ?W = length jsonlines"
    using converts_all [OF c] by simp_all
  have s: "snd (write_csv loads fs jsonlines outcsv flds) = None"
    using assms(1) r by (simp add: write_csv_eq)
  have e: "jsonlines = [] \<longrightarrow> concat (map csv_line (flds # ?W)) = csv_line flds
             \<and> map (map c_string) (flds # ?W) = [map c_string flds]"
    by simp
  have n: "length (map (map c_string) (flds # ?W)) = length jsonlines + 1" using l by simp
  have "files (fst (write_csv loads fs jsonlines outcsv flds)) outcsv
                = Some (concat (map csv_line (flds # ?W)))
       \<and> csv_reader (concat (map csv_line (flds # ?W))) = Some (map (map c_string) (flds # ?W))
       \<and> length (map (map c_string) (flds # ?W)) = length jsonlines + 1
       \<and> (jsonlines = [] \<longrightarrow> concat (map csv_line (flds # ?W)) = csv_line flds
             \<and> map (map c_string) (flds # ?W) = [map c_string flds])"
    using read_back [OF assms(1), of loads jsonlines flds] e n by simp
  then have "\<exists>text rows. files (fst (write_csv loads fs jsonlines outcsv flds)) outcsv = Some text
             \<and> csv_reader text = Some rows
             \<and> length rows = length jsonlines + 1
             \<and> (jsonlines = [] \<longrightarrow> text = csv_line flds \<and> rows = [map c_string flds])"
    by (intro exI)
  then show ?thesis using s by simp
qed

theorem row_count_witness:
  "''listings.csv'' \<notin> denied fs0
   \<and> list_all (valid_line json_loads listings_fields) [camera_line, widget_line]
   \<and> snd (write_csv json_loads fs0 [camera_line, widget_line] ''listings.csv'' listings_fields)
       = None
   \<and> (\<exists>text rows. files (fst (write_csv json_loads fs0 [camera_line, widget_line]
                        ''listings.csv'' listings_fields)) ''listings.csv'' = Some text
          \<and> csv_reader text = Some rows
          \<and> length rows = length [camera_line, widget_line] + 1
          \<and> ([camera_line, widget_line] = []
               \<longrightarrow> text = csv_line listings_fields \<and> rows = [map c_string listings_fields]))
   \<and> files (fst (write_csv json_loads fs0 [] ''listings.csv'' listings_fields)) ''listings.csv''
       = Some (''\"title\",\"manufacturer\",\"currency\",\"price\"'' @ [CHR 0x0D, CHR 0x0A])"
proof -
  have h1: "''listings.csv'' \<notin> denied fs0" by (simp add: fs0_def)
  have h2: "list_all (valid_line json_loads listings_fields) [camera_line, widget_line]"
    by code_simp
  have h3: "files (fst (write_csv json_loads fs0 [] ''listings.csv'' listings_fields))
              ''listings.csv''
       = Some (''\"title\",\"manufacturer\",\"currency\",\"price\"'' @ [CHR 0x0D, CHR 0x0A])"
    by code_simp
  show ?thesis
    using row_count [OF h1 h2] h1 h2 h3
    by simp
qed

text \<open>
  C2. Every row of the document \<open>write_csv\<close> leaves, the header row and each data
  row, has as many cells as the field list has fields, whatever the input lines hold and
  whether \<open>write_csv\<close> returns or raises.
\<close>

theorem row_length_is_field_count:
  assumes "outcsv \<notin> denied fs"
  shows "\<exists>text rows. files (fst (write_csv loads fs jsonlines outcsv flds)) outcsv = Some text
           \<and> csv_reader text = Some rows
           \<and> rows \<noteq> []
           \<and> list_all (\<lambda>r. length r = length flds) rows"
proof -
  let ?W = "written_rows loads flds jsonlines"
  have "list_all (\<lambda>r. length r = length flds) (map (map c_string) (flds # ?W))"
    using written_rows_cells [of flds loads jsonlines] by (simp add: list_all_iff)
  then have "files (fst (write_csv loads fs jsonlines outcsv flds)) outcsv
                = Some (concat (map csv_line (flds # ?W)))
       \<and> csv_reader (concat (map csv_line (flds # ?W))) = Some (map (map c_string) (flds # ?W))
       \<and> map (map c_string) (flds # ?W) \<noteq> []
       \<and> list_all (\<lambda>r. length r = length flds) (map (map c_string) (flds # ?W))"
    using read_back [OF assms, of loads jsonlines flds] by simp
  then show ?thesis by (intro exI)
qed

theorem row_length_is_field_count_witness:
  "''listings.csv'' \<notin> denied fs0
   \<and> (\<exists>text rows. files (fst (write_csv json_loads fs0 [camera_line, widget_line, null_price_line]
                        ''listings.csv'' listings_fields)) ''listings.csv'' = Some text
          \<and> csv_reader text = Some rows
          \<and> rows \<noteq> []
          \<and> list_all (\<lambda>r. length r = length listings_fields) rows)
   \<and> map_option (map length)
         (csv_reader (the (files (fst (write_csv json_loads fs0
            [camera_line, widget_line, null_price_line] ''listings.csv'' listings_fields))
            ''listings.csv''))) = Some [4, 4, 4]"
proof -
  have h1: "''listings.csv'' \<notin> denied fs0" by (simp add: fs0_def)
  have h2: "map_option (map length)
         (csv_reader (the (files (fst (write_csv json_loads fs0
            [camera_line, widget_line, null_price_line] ''listings.csv'' listings_fields))
            ''listings.csv''))) = Some [4, 4, 4]"
    by code_simp
  show ?thesis
    using row_length_is_field_count [OF h1, of json_loads
        "[camera_line, widget_line, null_price_line]" listings_fields] h1 h2
    by simp
qed

text \<open>
  C3. When a line decodes to a record from which a requested field is absent, and the
  line and the lines before it convert, the cell of that field in the row of that line
  is the empty string, written as two quote characters. The line
  \<open>{"product_name": "Widget", "manufacturer": "Acme"}\<close> with the fields
  \<open>product_name\<close>, \<open>manufacturer\<close>, \<open>family\<close> gives the row
  \<open>"Widget","Acme",""\<close>.
\<close>

theorem absent_field_gives_empty_cell:
  assumes "outcsv \<notin> denied fs"
    and "list_all (converts loads flds) pre"
    and "loads line = Inr (PDict items)"
    and "converts loads flds line"
    and "i < length flds"
    and "dict_lookup items (flds ! i) = None"
  shows "\<exists>text rows cs before after.
           files (fst (write_csv loads fs (pre @ line # post) outcsv flds)) outcsv = Some text
           \<and> csv_reader text = Some rows
           \<and> length pre + 1 < length rows
           \<and> rows ! (length pre + 1) ! i = []
           \<and> cells (PDict items) flds = Inr cs
           \<and> text = before @ join_fields (map quoted cs) @ lineterminator @ after
           \<and> map quoted cs ! i = [quotechar, quotechar]"
proof -
  let ?ls = "pre @ line # post"
  let ?W = "written_rows loads flds ?ls"
  obtain cs where cs: "cells (PDict items) flds = Inr cs"
    using assms(3,4) by (auto simp add: converts_def split: sum.splits)
  have pl: "list_all (converts loads flds) (pre @ [line])" using assms(2,4) by simp
  have w: "?W = written_rows loads flds pre @ cs # written_rows loads flds post"
    using converts_append [OF assms(2), of "line # post"] assms(3) cs by simp
  have lp: "length (written_rows loads flds pre) = length pre"
    using converts_all [OF assms(2)] by simp
  have n: "?W ! length pre = cs" unfolding w using lp by (simp add: nth_append)
  have len: "length pre < length ?W" unfolding w using lp by simp
  have lc: "length cs = length flds" by (rule cells_length [OF cs])
  have ci: "cs ! i = []" using cells_nth [OF cs assms(5)] assms(6) by simp
  have q: "map quoted cs ! i = [quotechar, quotechar]"
    using ci lc assms(5) by (simp add: quoted_def c_string_def double_quotes_def)
  have r1: "length pre + 1 < length (map (map c_string) (flds # ?W))" using len by simp
  have r2: "map (map c_string) (flds # ?W) ! (length pre + 1) ! i = []"
    using len n ci lc assms(5) by (simp add: c_string_def)
  have t: "concat (map csv_line (flds # ?W))
             = concat (map csv_line (flds # written_rows loads flds pre))
               @ join_fields (map quoted cs) @ lineterminator
               @ concat (map csv_line (written_rows loads flds post))"
    unfolding w by (simp add: csv_line_def)
  have "files (fst (write_csv loads fs ?ls outcsv flds)) outcsv
           = Some (concat (map csv_line (flds # ?W)))
       \<and> csv_reader (concat (map csv_line (flds # ?W))) = Some (map (map c_string) (flds # ?W))
       \<and> length pre + 1 < length (map (map c_string) (flds # ?W))
       \<and> map (map c_string) (flds # ?W) ! (length pre + 1) ! i = []
       \<and> cells (PDict items) flds = Inr cs
       \<and> concat (map csv_line (flds # ?W))
             = concat (map csv_line (flds # written_rows loads flds pre))
               @ join_fields (map quoted cs) @ lineterminator
               @ concat (map csv_line (written_rows loads flds post))
       \<and> map quoted cs ! i = [quotechar, quotechar]"
    using read_back [OF assms(1), of loads ?ls flds] r1 r2 cs t q by simp
  then show ?thesis by (intro exI)
qed


theorem absent_field_gives_empty_cell_witness:
  "''products.csv'' \<notin> denied fs0
   \<and> list_all (converts json_loads [''product_name'', ''manufacturer'', ''family'']) [widget_line]
   \<and> json_loads widget_line = Inr (PDict widget_items)
   \<and> converts json_loads [''product_name'', ''manufacturer'', ''family''] widget_line
   \<and> 2 < length [''product_name'', ''manufacturer'', ''family'']
   \<and> dict_lookup widget_items ([''product_name'', ''manufacturer'', ''family''] ! 2) = None
   \<and> (\<exists>text rows cs before after.
         files (fst (write_csv json_loads fs0 ([widget_line] @ widget_line # []) ''products.csv''
                  [''product_name'', ''manufacturer'', ''family''])) ''products.csv'' = Some text
         \<and> csv_reader text = Some rows
         \<and> length [widget_line] + 1 < length rows
         \<and> rows ! (length [widget_line] + 1) ! 2 = []
         \<and> cells (PDict widget_items) [''product_name'', ''manufacturer'', ''family''] = Inr cs
         \<and> text = before @ join_fields (map quoted cs) @ lineterminator @ after
         \<and> map quoted cs ! 2 = [quotechar, quotechar])
   \<and> files (fst (write_csv json_loads fs0 [widget_line] ''products.csv''
                [''product_name'', ''manufacturer'', ''family''])) ''products.csv''
       = Some (''\"product_name\",\"manufacturer\",\"family\"'' @ [CHR 0x0D, CHR 0x0A]
               @ ''\"Widget\",\"Acme\",\"\"'' @ [CHR 0x0D, CHR 0x0A])"
proof -
  have h1: "''products.csv'' \<notin> denied fs0" by (simp add: fs0_def)
  have h2: "list_all (converts json_loads [''product_name'', ''manufacturer'', ''family'']) [widget_line]"
    by code_simp
  have h3: "json_loads widget_line = Inr (PDict widget_items)" by code_simp
  have h4: "converts json_loads [''product_name'', ''manufacturer'', ''family''] widget_line"
    by code_simp
  have h5: "2 < length [''product_name'', ''manufacturer'', ''family'']" by simp
  have h6: "dict_lookup widget_items ([''product_name'', ''manufacturer'', ''family''] ! 2) = None"
    by code_simp
  have h7: "files (fst (write_csv json_loads fs0 [widget_line] ''products.csv''
                [''product_name'', ''manufacturer'', ''family''])) ''products.csv''
       = Some (''\"product_name\",\"manufacturer\",\"family\"'' @ [CHR 0x0D, CHR 0x0A]
               @ ''\"Widget\",\"Acme\",\"\"'' @ [CHR 0x0D, CHR 0x0A])"
    by code_simp
  have c: "\<exists>text rows cs before after.
         files (fst (write_csv json_loads fs0 ([widget_line] @ widget_line # []) ''products.csv''
                  [''product_name'', ''manufacturer'', ''family''])) ''products.csv'' = Some text
         \<and> csv_reader text = Some rows
         \<and> length [widget_line] + 1 < length rows
         \<and> rows ! (length [widget_line] + 1) ! 2 = []
         \<and> cells (PDict widget_items) [''product_name'', ''manufacturer'', ''family''] = Inr cs
         \<and> text = before @ join_fields (map quoted cs) @ lineterminator @ after
         \<and> map quoted cs ! 2 = [quotechar, quotechar]"
    by (rule absent_field_gives_empty_cell [OF h1 h2 h3 h4 h5 h6])
  show ?thesis using h1 h2 h3 h4 h5 h6 h7 c by (intro conjI)
qed

text \<open>
  C4. In the document \<open>write_csv\<close> leaves in the destination, whether it returns or
  raises, every cell of every row, header and empty cells included, is wrapped in quote
  characters.
\<close>

theorem every_cell_quoted:
  assumes "outcsv \<notin> denied fs"
  shows "\<exists>text. files (fst (write_csv loads fs jsonlines outcsv flds)) outcsv = Some text
           \<and> fully_quoted LineStart text"
  using assms fully_quoted_lines [of "flds # written_rows loads flds jsonlines"]
  by (simp add: write_csv_eq)

theorem every_cell_quoted_witness:
  "''listings.csv'' \<notin> denied fs0
   \<and> (\<exists>text. files (fst (write_csv json_loads fs0 [camera_line, widget_line] ''listings.csv''
                        listings_fields)) ''listings.csv'' = Some text
          \<and> fully_quoted LineStart text)
   \<and> files (fst (write_csv json_loads fs0 [camera_line, widget_line] ''listings.csv''
                listings_fields)) ''listings.csv''
       = Some (''\"title\",\"manufacturer\",\"currency\",\"price\"'' @ [CHR 0x0D, CHR 0x0A]
               @ ''\"Zoom 10\"\", black\",\"Acme\",\"CAD\",\"35.99\"'' @ [CHR 0x0D, CHR 0x0A]
               @ ''\"\",\"Acme\",\"\",\"\"'' @ [CHR 0x0D, CHR 0x0A])
   \<and> \<not> fully_quoted LineStart (''\"title\",price'' @ [CHR 0x0D, CHR 0x0A])"
proof -
  have h1: "''listings.csv'' \<notin> denied fs0" by (simp add: fs0_def)
  have h2: "files (fst (write_csv json_loads fs0 [camera_line, widget_line] ''listings.csv''
                listings_fields)) ''listings.csv''
       = Some (''\"title\",\"manufacturer\",\"currency\",\"price\"'' @ [CHR 0x0D, CHR 0x0A]
               @ ''\"Zoom 10\"\", black\",\"Acme\",\"CAD\",\"35.99\"'' @ [CHR 0x0D, CHR 0x0A]
               @ ''\"\",\"Acme\",\"\",\"\"'' @ [CHR 0x0D, CHR 0x0A])"
    by code_simp
  have h3: "\<not> fully_quoted LineStart (''\"title\",price'' @ [CHR 0x0D, CHR 0x0A])"
    by code_simp
  show ?thesis
    using every_cell_quoted [OF h1, of json_loads "[camera_line, widget_line]" listings_fields]
      h1 h2 h3
    by blast
qed

text \<open>
  C5. The claim that a line which is valid JSON but not an object always makes
  \<open>write_csv\<close> fail, with the error of a line that is not JSON, does not hold: with
  an empty field list the line \<open>[1, 2]\<close> raises nothing and gives a row without
  cells, and with fields it raises \<open>AttributeError\<close> where a line that is not JSON
  raises \<open>ValueError\<close>.
\<close>

theorem non_object_line_counterexample:
  "json_loads ''[1, 2]'' = Inr (PList [PInt 1, PInt 2])
   \<and> snd (write_csv json_loads fs0 [''[1, 2]''] ''listings.csv'' []) = None
   \<and> files (fst (write_csv json_loads fs0 [''[1, 2]''] ''listings.csv'' [])) ''listings.csv''
       = Some [CHR 0x0D, CHR 0x0A, CHR 0x0D, CHR 0x0A]
   \<and> snd (write_csv json_loads fs0 [''[1, 2]''] ''listings.csv'' listings_fields)
       = Some AttributeError
   \<and> snd (write_csv json_loads fs0 [''not json''] ''listings.csv'' listings_fields)
       = Some ValueError"
  by code_simp

text \<open>
  C5, as amended. When the destination opens and the lines before convert, the
  destination holds the header row and the rows of those lines, and: a line that does
  not decode makes \<open>write_csv\<close> raise the decoder's exception, with no row for it; a
  line that decodes to something other than an object makes it raise
  \<open>AttributeError\<close>, with no row for it, when the field list is not empty; with an
  empty field list a line that decodes raises nothing and gives a row without cells,
  after which the lines that follow are taken as usual.
\<close>

theorem decode_and_lookup_failures:
  assumes "outcsv \<notin> denied fs"
    and "list_all (converts loads flds) pre"
  shows "\<exists>rows.
           list_all2 (\<lambda>l r. \<exists>obj. loads l = Inr obj \<and> cells obj flds = Inr r) pre rows
           \<and> (\<forall>e. loads line = Inl e
                \<longrightarrow> write_csv loads fs (pre @ line # post) outcsv flds
                    = (fs\<lparr>files := (files fs)(outcsv \<mapsto> concat (map csv_line (flds # rows)))\<rparr>,
                       Some e))
           \<and> (\<forall>obj. loads line = Inr obj \<and> \<not> is_dict obj \<and> flds \<noteq> []
                \<longrightarrow> write_csv loads fs (pre @ line # post) outcsv flds
                    = (fs\<lparr>files := (files fs)(outcsv \<mapsto> concat (map csv_line (flds # rows)))\<rparr>,
                       Some AttributeError))
           \<and> (\<forall>obj. loads line = Inr obj \<and> flds = [] \<and> list_all (converts loads flds) post
                \<longrightarrow> (\<exists>rows'.
                      list_all2 (\<lambda>l r. \<exists>obj. loads l = Inr obj \<and> cells obj flds = Inr r)
                        post rows'
                      \<and> write_csv loads fs (pre @ line # post) outcsv flds
                          = (fs\<lparr>files := (files fs)(outcsv \<mapsto>
                               concat (map csv_line (flds # rows @ [] # rows')))\<rparr>, None)
                      \<and> csv_reader (concat (map csv_line (flds # rows @ [] # rows')))
                          = Some (map (map c_string) (flds # rows @ [] # rows'))))"
proof -
  let ?rows = "written_rows loads flds pre"
  let ?F = "\<lambda>rs. fs\<lparr>files := (files fs)(outcsv \<mapsto> concat (map csv_line (flds # rs)))\<rparr>"
  have r0: "list_all2 (\<lambda>l r. \<exists>obj. loads l = Inr obj \<and> cells obj flds = Inr r) pre ?rows"
    by (rule converts_rows [OF assms(2)])
  have stop: "write_csv loads fs (pre @ line # post) outcsv flds = (?F ?rows, raised loads flds [line])"
    if nc: "\<not> converts loads flds line"
  proof -
    have w: "written_rows loads flds (pre @ line # post) = ?rows"
      by (rule written_rows_stop [OF nc])
    have r: "raised loads flds (pre @ line # post) = raised loads flds [line]"
      using raised_stop [OF nc, of pre post] converts_all [OF assms(2)] by simp
    show ?thesis
      using write_csv_eq [OF assms(1), of loads "pre @ line # post" flds] w r by simp
  qed
  have a: "\<forall>e. loads line = Inl e
            \<longrightarrow> write_csv loads fs (pre @ line # post) outcsv flds = (?F ?rows, Some e)"
  proof (intro allI impI)
    fix e assume l: "loads line = Inl e"
    have nc: "\<not> converts loads flds line" using l by (simp add: converts_def)
    show "write_csv loads fs (pre @ line # post) outcsv flds = (?F ?rows, Some e)"
      using stop [OF nc] l by simp
  qed
  have b: "\<forall>obj. loads line = Inr obj \<and> \<not> is_dict obj \<and> flds \<noteq> []
            \<longrightarrow> write_csv loads fs (pre @ line # post) outcsv flds
                = (?F ?rows, Some AttributeError)"
  proof (intro allI impI, elim conjE)
    fix obj assume l: "loads line = Inr obj" and d: "\<not> is_dict obj" and f: "flds \<noteq> []"
    have c: "cells obj flds = Inl AttributeError" by (rule non_dict_cells [OF d f])
    have nc: "\<not> converts loads flds line" using l c by (simp add: converts_def)
    show "write_csv loads fs (pre @ line # post) outcsv flds = (?F ?rows, Some AttributeError)"
      using stop [OF nc] l c by simp
  qed
  have c: "\<forall>obj. loads line = Inr obj \<and> flds = [] \<and> list_all (converts loads flds) post
            \<longrightarrow> (\<exists>rows'.
                  list_all2 (\<lambda>l r. \<exists>obj. loads l = Inr obj \<and> cells obj flds = Inr r)
                    post rows'
                  \<and> write_csv loads fs (pre @ line # post) outcsv flds
                      = (?F (?rows @ [] # rows'), None)
                  \<and> csv_reader (concat (map csv_line (flds # ?rows @ [] # rows')))
                      = Some (map (map c_string) (flds # ?rows @ [] # rows')))"
  proof (intro allI impI, elim conjE)
    fix obj
    assume l: "loads line = Inr obj" and f: "flds = []"
      and p: "list_all (converts loads flds) post"
    let ?rows' = "written_rows loads flds post"
    have cs: "cells obj flds = Inr []" using f by simp
    have w: "written_rows loads flds (pre @ line # post) = ?rows @ [] # ?rows'"
      using converts_append [OF assms(2), of "line # post"] l cs by simp
    have r: "raised loads flds (pre @ line # post) = None"
      using converts_append [OF assms(2), of "line # post"] l cs converts_all [OF p] by simp
    have e: "write_csv loads fs (pre @ line # post) outcsv flds = (?F (?rows @ [] # ?rows'), None)"
      using write_csv_eq [OF assms(1), of loads "pre @ line # post" flds] w r by simp
    have "list_all2 (\<lambda>l r. \<exists>obj. loads l = Inr obj \<and> cells obj flds = Inr r) post ?rows'
          \<and> write_csv loads fs (pre @ line # post) outcsv flds
              = (?F (?rows @ [] # ?rows'), None)
          \<and> csv_reader (concat (map csv_line (flds # ?rows @ [] # ?rows')))
              = Some (map (map c_string) (flds # ?rows @ [] # ?rows'))"
      using converts_rows [OF p] e csv_reader_lines [of "flds # ?rows @ [] # ?rows'"]
      by (intro conjI)
    then show "\<exists>rows'.
                  list_all2 (\<lambda>l r. \<exists>obj. loads l = Inr obj \<and> cells obj flds = Inr r)
                    post rows'
                  \<and> write_csv loads fs (pre @ line # post) outcsv flds
                      = (?F (?rows @ [] # rows'), None)
                  \<and> csv_reader (concat (map csv_line (flds # ?rows @ [] # rows')))
                      = Some (map (map c_string) (flds # ?rows @ [] # rows'))"
      by (intro exI)
  qed
  have "list_all2 (\<lambda>l r. \<exists>obj. loads l = Inr obj \<and> cells obj flds = Inr r) pre ?rows
        \<and> (\<forall>e. loads line = Inl e
              \<longrightarrow> write_csv loads fs (pre @ line # post) outcsv flds = (?F ?rows, Some e))
        \<and> (\<forall>obj. loads line = Inr obj \<and> \<not> is_dict obj \<and> flds \<noteq> []
              \<longrightarrow> write_csv loads fs (pre @ line # post) outcsv flds
                  = (?F ?rows, Some AttributeError))
        \<and> (\<forall>obj. loads line = Inr obj \<and> flds = [] \<and> list_all (converts loads flds) post
              \<longrightarrow> (\<exists>rows'.
                    list_all2 (\<lambda>l r. \<exists>obj. loads l = Inr obj \<and> cells obj flds = Inr r)
                      post rows'
                    \<and> write_csv loads fs (pre @ line # post) outcsv flds
                        = (?F (?rows @ [] # rows'), None)
                    \<and> csv_reader (concat (map csv_line (flds # ?rows @ [] # rows')))
                        = Some (map (map c_string) (flds # ?rows @ [] # rows'))))"
    using r0 a b c by (intro conjI)
  then show ?thesis by (intro exI)
qed

theorem decode_and_lookup_failures_witness:
  "''listings.csv'' \<notin> denied fs0
   \<and> list_all (converts json_loads listings_fields) [camera_line]
   \<and> json_loads ''not json'' = Inl ValueError
   \<and> snd (write_csv json_loads fs0 ([camera_line] @ ''not json'' # [camera_line])
            ''listings.csv'' listings_fields) = Some ValueError
   \<and> json_loads ''\"Tripod\"'' = Inr (PUnicode (map of_char ''Tripod''))
   \<and> \<not> is_dict (PUnicode (map of_char ''Tripod''))
   \<and> listings_fields \<noteq> []
   \<and> snd (write_csv json_loads fs0 ([camera_line] @ ''\"Tripod\"'' # [camera_line])
            ''listings.csv'' listings_fields) = Some AttributeError
   \<and> list_all (converts json_loads []) [camera_line]
   \<and> json_loads ''[1, 2]'' = Inr (PList [PInt 1, PInt 2])
   \<and> snd (write_csv json_loads fs0 ([camera_line] @ ''[1, 2]'' # [camera_line])
            ''listings.csv'' []) = None
   \<and> files (fst (write_csv json_loads fs0 ([camera_line] @ ''[1, 2]'' # [camera_line])
                ''listings.csv'' [])) ''listings.csv''
       = Some [CHR 0x0D, CHR 0x0A, CHR 0x0D, CHR 0x0A, CHR 0x0D, CHR 0x0A, CHR 0x0D, CHR 0x0A]"
proof -
  have h1: "''listings.csv'' \<notin> denied fs0" by (simp add: fs0_def)
  have h2: "list_all (converts json_loads listings_fields) [camera_line]" by code_simp
  have h3: "json_loads ''not json'' = Inl ValueError" by code_simp
  have h4: "json_loads ''\"Tripod\"'' = Inr (PUnicode (map of_char ''Tripod''))" by code_simp
  have h5: "\<not> is_dict (PUnicode (map of_char ''Tripod''))" by simp
  have h6: "listings_fields \<noteq> []" by (simp add: listings_fields_def)
  have h7: "list_all (converts json_loads []) [camera_line]" by code_simp
  have h8: "json_loads ''[1, 2]'' = Inr (PList [PInt 1, PInt 2])" by code_simp
  have h9: "files (fst (write_csv json_loads fs0 ([camera_line] @ ''[1, 2]'' # [camera_line])
                ''listings.csv'' [])) ''listings.csv''
       = Some [CHR 0x0D, CHR 0x0A, CHR 0x0D, CHR 0x0A, CHR 0x0D, CHR 0x0A, CHR 0x0D, CHR 0x0A]"
    by code_simp
  have a: "snd (write_csv json_loads fs0 ([camera_line] @ ''not json'' # [camera_line])
            ''listings.csv'' listings_fields) = Some ValueError"
    using decode_and_lookup_failures [OF h1 h2, of "''not json''" "[camera_line]"] h3
    by (elim exE conjE) simp
  have b: "snd (write_csv json_loads fs0 ([camera_line] @ ''\"Tripod\"'' # [camera_line])
            ''listings.csv'' listings_fields) = Some AttributeError"
    using decode_and_lookup_failures [OF h1 h2, of "''\"Tripod\"''" "[camera_line]"] h4 h5 h6
    by (elim exE conjE) simp
  have c: "snd (write_csv json_loads fs0 ([camera_line] @ ''[1, 2]'' # [camera_line])
            ''listings.csv'' []) = None"
    using decode_and_lookup_failures [OF h1 h7, of "''[1, 2]''" "[camera_line]"] h7 h8
    by (elim exE conjE) auto
  show ?thesis using h1 h2 h3 a h4 h5 h6 b h7 h8 c h9 by (intro conjI)
qed

text \<open>
  C6. The claim that numbers and booleans are turned into text does not hold: a record
  with a number or a boolean in a requested field makes \<open>write_csv\<close> raise
  \<open>AttributeError\<close> and no row is written for it. Nor does every string come back
  as it was: the writer ends a cell at the first NUL character of the value, and a high
  surrogate followed by a low surrogate is encoded as the one character of the pair,
  which is what the cell decodes to.
\<close>

theorem coercion_counterexample:
  "json_loads number_price_line = Inr (PDict (tripod_items (PFloat ''35.99'')))
   \<and> snd (write_csv json_loads fs0 [number_price_line] ''listings.csv'' listings_fields)
       = Some AttributeError
   \<and> files (fst (write_csv json_loads fs0 [number_price_line] ''listings.csv'' listings_fields))
         ''listings.csv''
       = Some (''\"title\",\"manufacturer\",\"currency\",\"price\"'' @ [CHR 0x0D, CHR 0x0A])
   \<and> json_loads in_stock_line = Inr (PDict (tripod_items (PBool True)))
   \<and> snd (write_csv json_loads fs0 [in_stock_line] ''listings.csv'' listings_fields)
       = Some AttributeError
   \<and> json_loads nul_title_line
       = Inr (PDict [(map of_char ''title'', PUnicode [0x54, 0x72, 0x69, 0, 0x70, 0x6F, 0x64])])
   \<and> snd (write_csv json_loads fs0 [nul_title_line] ''listings.csv'' [''title'']) = None
   \<and> files (fst (write_csv json_loads fs0 [nul_title_line] ''listings.csv'' [''title'']))
         ''listings.csv''
       = Some (''\"title\"'' @ [CHR 0x0D, CHR 0x0A] @ ''\"Tri\"'' @ [CHR 0x0D, CHR 0x0A])
   \<and> csv_reader (''\"title\"'' @ [CHR 0x0D, CHR 0x0A] @ ''\"Tri\"'' @ [CHR 0x0D, CHR 0x0A])
       = Some [[''title''], [''Tri'']]
   \<and> json_loads surrogates_line
       = Inr (PDict [(map of_char ''title'', PUnicode [0xD83D, 0xDE00])])
   \<and> snd (write_csv json_loads fs0 [surrogates_line] ''listings.csv'' [''title'']) = None
   \<and> files (fst (write_csv json_loads fs0 [surrogates_line] ''listings.csv'' [''title'']))
         ''listings.csv''
       = Some (''\"title\"'' @ [CHR 0x0D, CHR 0x0A]
               @ [CHR 0x22, CHR 0xF0, CHR 0x9F, CHR 0x98, CHR 0x80, CHR 0x22] @ [CHR 0x0D, CHR 0x0A])
   \<and> csv_reader (''\"title\"'' @ [CHR 0x0D, CHR 0x0A]
               @ [CHR 0x22, CHR 0xF0, CHR 0x9F, CHR 0x98, CHR 0x80, CHR 0x22] @ [CHR 0x0D, CHR 0x0A])
       = Some [[''title''], [[CHR 0xF0, CHR 0x9F, CHR 0x98, CHR 0x80]]]
   \<and> decode_utf8 [CHR 0xF0, CHR 0x9F, CHR 0x98, CHR 0x80] = Some [0x1F600]"
proof -
  have a1: "json_loads number_price_line = Inr (PDict (tripod_items (PFloat ''35.99'')))"
    by code_simp
  have a2: "snd (write_csv json_loads fs0 [number_price_line] ''listings.csv'' listings_fields)
       = Some AttributeError"
    by code_simp
  have a3: "files (fst (write_csv json_loads fs0 [number_price_line] ''listings.csv''
                  listings_fields)) ''listings.csv''
       = Some (''\"title\",\"manufacturer\",\"currency\",\"price\"'' @ [CHR 0x0D, CHR 0x0A])"
    by code_simp
  have a4: "json_loads in_stock_line = Inr (PDict (tripod_items (PBool True)))"
    by code_simp
  have a5: "snd (write_csv json_loads fs0 [in_stock_line] ''listings.csv'' listings_fields)
       = Some AttributeError"
    by code_simp
  have b1: "json_loads nul_title_line
       = Inr (PDict [(map of_char ''title'', PUnicode [0x54, 0x72, 0x69, 0, 0x70, 0x6F, 0x64])])"
    by (simp add: nul_title_line_def json_eval)
  have c: "cells (PDict [(map of_char ''title'', PUnicode [0x54, 0x72, 0x69, 0, 0x70, 0x6F, 0x64])])
             [''title''] = Inr [''Tri'' @ [CHR 0x00] @ ''pod'']"
    by code_simp
  have w: "written_rows json_loads [''title''] [nul_title_line] = [[''Tri'' @ [CHR 0x00] @ ''pod'']]"
    using b1 c by simp
  have r: "raised json_loads [''title''] [nul_title_line] = None"
    using b1 c by simp
  have d: "''listings.csv'' \<notin> denied fs0" by (simp add: fs0_def)
  have t: "concat (map csv_line [[''title''], [''Tri'' @ [CHR 0x00] @ ''pod'']])
             = ''\"title\"'' @ [CHR 0x0D, CHR 0x0A] @ ''\"Tri\"'' @ [CHR 0x0D, CHR 0x0A]"
    by code_simp
  have b2: "snd (write_csv json_loads fs0 [nul_title_line] ''listings.csv'' [''title'']) = None"
    using write_csv_eq [OF d, of json_loads "[nul_title_line]" "[''title'']"] r by simp
  have b3: "files (fst (write_csv json_loads fs0 [nul_title_line] ''listings.csv'' [''title'']))
         ''listings.csv''
       = Some (''\"title\"'' @ [CHR 0x0D, CHR 0x0A] @ ''\"Tri\"'' @ [CHR 0x0D, CHR 0x0A])"
    using write_csv_eq [OF d, of json_loads "[nul_title_line]" "[''title'']"] w t by simp
  have b4: "csv_reader (''\"title\"'' @ [CHR 0x0D, CHR 0x0A] @ ''\"Tri\"'' @ [CHR 0x0D, CHR 0x0A])
       = Some [[''title''], [''Tri'']]"
    by code_simp
  have s1: "json_loads surrogates_line
       = Inr (PDict [(map of_char ''title'', PUnicode [0xD83D, 0xDE00])])"
    by (simp add: surrogates_line_def json_eval)
  have s2: "encode_utf8 [0xD83D, 0xDE00] = map char_of [0xF0 :: nat, 0x9F, 0x98, 0x80]"
    by (simp add: high_surrogate_def low_surrogate_def join_surrogates_def utf8_char_def)
  have s3: "map char_of [0xF0 :: nat, 0x9F, 0x98, 0x80] = [CHR 0xF0, CHR 0x9F, CHR 0x98, CHR 0x80]"
    by code_simp
  have s4: "dict_lookup [(map of_char ''title'', PUnicode [0xD83D, 0xDE00])] ''title''
              = Some (PUnicode [0xD83D, 0xDE00])"
    by (simp add: str_eq_unicode_def is_ascii_def)
  have s5: "cells (PDict [(map of_char ''title'', PUnicode [0xD83D, 0xDE00])]) [''title'']
              = Inr [[CHR 0xF0, CHR 0x9F, CHR 0x98, CHR 0x80]]"
    using s2 s3 s4 by (simp del: encode_utf8.simps dict_lookup.simps)
  have s6: "written_rows json_loads [''title''] [surrogates_line]
              = [[[CHR 0xF0, CHR 0x9F, CHR 0x98, CHR 0x80]]]"
    using s1 s5 by (simp del: cells.simps)
  have s7: "raised json_loads [''title''] [surrogates_line] = None"
    using s1 s5 by (simp del: cells.simps)
  have s8: "concat (map csv_line [[''title''], [[CHR 0xF0, CHR 0x9F, CHR 0x98, CHR 0x80]]])
             = ''\"title\"'' @ [CHR 0x0D, CHR 0x0A]
               @ [CHR 0x22, CHR 0xF0, CHR 0x9F, CHR 0x98, CHR 0x80, CHR 0x22] @ [CHR 0x0D, CHR 0x0A]"
    by code_simp
  have c1: "snd (write_csv json_loads fs0 [surrogates_line] ''listings.csv'' [''title'']) = None"
    using write_csv_eq [OF d, of json_loads "[surrogates_line]" "[''title'']"] s7 by simp
  have c2: "files (fst (write_csv json_loads fs0 [surrogates_line] ''listings.csv'' [''title'']))
         ''listings.csv''
       = Some (''\"title\"'' @ [CHR 0x0D, CHR 0x0A]
               @ [CHR 0x22, CHR 0xF0, CHR 0x9F, CHR 0x98, CHR 0x80, CHR 0x22] @ [CHR 0x0D, CHR 0x0A])"
    using write_csv_eq [OF d, of json_loads "[surrogates_line]" "[''title'']"] s6 s8 by simp
  have c3: "csv_reader (''\"title\"'' @ [CHR 0x0D, CHR 0x0A]
               @ [CHR 0x22, CHR 0xF0, CHR 0x9F, CHR 0x98, CHR 0x80, CHR 0x22] @ [CHR 0x0D, CHR 0x0A])
       = Some [[''title''], [[CHR 0xF0, CHR 0x9F, CHR 0x98, CHR 0x80]]]"
    by code_simp
  have c4: "decode_utf8 [CHR 0xF0, CHR 0x9F, CHR 0x98, CHR 0x80] = Some [0x1F600]"
    by (simp add: decode_utf8_def cont_def)
  show ?thesis using a1 a2 a3 a4 a5 b1 b2 b3 b4 s1 c1 c2 c3 c4 by (intro conjI)
qed

text \<open>
  C6, as amended. When the destination opens and every input line decodes to a record
  whose requested fields are absent or strings, reading the document back gives one row
  per line after the header. In it, the cell of a field that the lookup does not find in
  the record is empty (a field name finds a key only when it is ASCII and equal to it),
  and the cell of a field that it finds is the UTF-8 encoding of the value up to its
  first NUL character, in which a high surrogate followed by a low surrogate is
  encoded as the one character of the pair: for a value of code points without NUL and
  without such a pair the cell decodes to exactly the value. A number or a boolean is
  not turned into text: encoding it raises \<open>AttributeError\<close>, and a record with one
  in a requested field makes \<open>write_csv\<close> fail.
\<close>

theorem string_values_round_trip:
  assumes "outcsv \<notin> denied fs"
    and "list_all (valid_line loads flds) jsonlines"
  shows "(\<exists>text rows.
            files (fst (write_csv loads fs jsonlines outcsv flds)) outcsv = Some text
            \<and> csv_reader text = Some rows
            \<and> length rows = length jsonlines + 1
            \<and> (\<forall>j i items.
                  j < length jsonlines \<and> i < length flds
                  \<and> loads (jsonlines ! j) = Inr (PDict items)
                  \<longrightarrow> (dict_lookup items (flds ! i) = None \<longrightarrow> rows ! (j + 1) ! i = [])
                      \<and> (\<forall>u. dict_lookup items (flds ! i) = Some (PUnicode u)
                           \<longrightarrow> rows ! (j + 1) ! i = c_string (encode_utf8 u)
                               \<and> (list_all (\<lambda>c. 0 < c \<and> c < 0x110000) u
                                      \<and> no_surrogate_pair u
                                    \<longrightarrow> decode_utf8 (rows ! (j + 1) ! i) = Some u))))
       \<and> (\<forall>v. number_or_boolean v \<longrightarrow> py_encode v = Inl AttributeError)
       \<and> (\<forall>line items k v pre post.
             loads line = Inr (PDict items) \<and> k \<in> set flds
             \<and> dict_lookup items k = Some v \<and> number_or_boolean v
             \<longrightarrow> snd (write_csv loads fs (pre @ line # post) outcsv flds) \<noteq> None)"
proof -
  let ?W = "written_rows loads flds jsonlines"
  let ?R = "map (map c_string) (flds # ?W)"
  have c: "list_all (converts loads flds) jsonlines"
    by (rule valid_lines_convert [OF assms(2)])
  have l: "length ?W = length jsonlines" using converts_all [OF c] by simp
  have n: "length ?R = length jsonlines + 1" using l by simp
  have cell: "(\<forall>j i items.
                  j < length jsonlines \<and> i < length flds
                  \<and> loads (jsonlines ! j) = Inr (PDict items)
                  \<longrightarrow> (dict_lookup items (flds ! i) = None \<longrightarrow> ?R ! (j + 1) ! i = [])
                      \<and> (\<forall>u. dict_lookup items (flds ! i) = Some (PUnicode u)
                           \<longrightarrow> ?R ! (j + 1) ! i = c_string (encode_utf8 u)
                               \<and> (list_all (\<lambda>c. 0 < c \<and> c < 0x110000) u
                                      \<and> no_surrogate_pair u
                                    \<longrightarrow> decode_utf8 (?R ! (j + 1) ! i) = Some u)))"
  proof (intro allI impI, elim conjE)
    fix j i items
    assume j: "j < length jsonlines" and i: "i < length flds"
      and o: "loads (jsonlines ! j) = Inr (PDict items)"
    have cs: "cells (PDict items) flds = Inr (?W ! j)" by (rule written_rows_nth [OF c j o])
    have lc: "length (?W ! j) = length flds" by (rule cells_length [OF cs])
    have ri: "?R ! (j + 1) ! i = c_string (?W ! j ! i)" using j l lc i by simp
    have absent: "dict_lookup items (flds ! i) = None \<longrightarrow> ?R ! (j + 1) ! i = []"
    proof
      assume "dict_lookup items (flds ! i) = None"
      then have "?W ! j ! i = []" using cells_nth [OF cs i] by simp
      then show "?R ! (j + 1) ! i = []" using ri by (simp add: c_string_def)
    qed
    have found: "\<forall>u. dict_lookup items (flds ! i) = Some (PUnicode u)
                   \<longrightarrow> ?R ! (j + 1) ! i = c_string (encode_utf8 u)
                       \<and> (list_all (\<lambda>c. 0 < c \<and> c < 0x110000) u \<and> no_surrogate_pair u
                            \<longrightarrow> decode_utf8 (?R ! (j + 1) ! i) = Some u)"
    proof (intro allI impI)
      fix u assume d: "dict_lookup items (flds ! i) = Some (PUnicode u)"
      have v: "?W ! j ! i = encode_utf8 u" using cells_nth [OF cs i] d by simp
      have r: "?R ! (j + 1) ! i = c_string (encode_utf8 u)" using ri v by simp
      have "list_all (\<lambda>c. 0 < c \<and> c < 0x110000) u \<and> no_surrogate_pair u
              \<longrightarrow> decode_utf8 (?R ! (j + 1) ! i) = Some u"
      proof (intro impI, elim conjE)
        assume u: "list_all (\<lambda>c. 0 < c \<and> c < 0x110000) u" and p: "no_surrogate_pair u"
        have "list_all (\<lambda>c. c < 0x110000) u" using u by (simp add: list_all_iff)
        then have "decode_utf8 (encode_utf8 u) = Some u" using p by (rule decode_encode_utf8)
        then show "decode_utf8 (?R ! (j + 1) ! i) = Some u"
          using r c_string_id [OF encode_utf8_no_nul [OF u p]] by simp
      qed
      then show "?R ! (j + 1) ! i = c_string (encode_utf8 u)
                  \<and> (list_all (\<lambda>c. 0 < c \<and> c < 0x110000) u \<and> no_surrogate_pair u
                       \<longrightarrow> decode_utf8 (?R ! (j + 1) ! i) = Some u)"
        using r by (intro conjI)
    qed
    show "(dict_lookup items (flds ! i) = None \<longrightarrow> ?R ! (j + 1) ! i = [])
          \<and> (\<forall>u. dict_lookup items (flds ! i) = Some (PUnicode u)
                 \<longrightarrow> ?R ! (j + 1) ! i = c_string (encode_utf8 u)
                     \<and> (list_all (\<lambda>c. 0 < c \<and> c < 0x110000) u \<and> no_surrogate_pair u
                          \<longrightarrow> decode_utf8 (?R ! (j + 1) ! i) = Some u))"
      using absent found by (intro conjI)
  qed
  have rb: "files (fst (write_csv loads fs jsonlines outcsv flds)) outcsv
          = Some (concat (map csv_line (flds # ?W)))"
       "csv_reader (concat (map csv_line (flds # ?W))) = Some ?R"
    using read_back [OF assms(1), of loads jsonlines flds] by simp_all
  have "files (fst (write_csv loads fs jsonlines outcsv flds)) outcsv
          = Some (concat (map csv_line (flds # ?W)))
        \<and> csv_reader (concat (map csv_line (flds # ?W))) = Some ?R
        \<and> length ?R = length jsonlines + 1
        \<and> (\<forall>j i items.
                  j < length jsonlines \<and> i < length flds
                  \<and> loads (jsonlines ! j) = Inr (PDict items)
                  \<longrightarrow> (dict_lookup items (flds ! i) = None \<longrightarrow> ?R ! (j + 1) ! i = [])
                      \<and> (\<forall>u. dict_lookup items (flds ! i) = Some (PUnicode u)
                           \<longrightarrow> ?R ! (j + 1) ! i = c_string (encode_utf8 u)
                               \<and> (list_all (\<lambda>c. 0 < c \<and> c < 0x110000) u
                                      \<and> no_surrogate_pair u
                                    \<longrightarrow> decode_utf8 (?R ! (j + 1) ! i) = Some u)))"
    using rb n cell by (intro conjI)
  then have first: "\<exists>text rows.
            files (fst (write_csv loads fs jsonlines outcsv flds)) outcsv = Some text
            \<and> csv_reader text = Some rows
            \<and> length rows = length jsonlines + 1
            \<and> (\<forall>j i items.
                  j < length jsonlines \<and> i < length flds
                  \<and> loads (jsonlines ! j) = Inr (PDict items)
                  \<longrightarrow> (dict_lookup items (flds ! i) = None \<longrightarrow> rows ! (j + 1) ! i = [])
                      \<and> (\<forall>u. dict_lookup items (flds ! i) = Some (PUnicode u)
                           \<longrightarrow> rows ! (j + 1) ! i = c_string (encode_utf8 u)
                               \<and> (list_all (\<lambda>c. 0 < c \<and> c < 0x110000) u
                                      \<and> no_surrogate_pair u
                                    \<longrightarrow> decode_utf8 (rows ! (j + 1) ! i) = Some u)))"
    by (intro exI)
  have second: "\<forall>v. number_or_boolean v \<longrightarrow> py_encode v = Inl AttributeError"
  proof (intro allI impI)
    fix v assume "number_or_boolean v"
    then show "py_encode v = Inl AttributeError" by (cases v) simp_all
  qed
  have third: "\<forall>line items k v pre post.
             loads line = Inr (PDict items) \<and> k \<in> set flds
             \<and> dict_lookup items k = Some v \<and> number_or_boolean v
             \<longrightarrow> snd (write_csv loads fs (pre @ line # post) outcsv flds) \<noteq> None"
  proof (intro allI impI, elim conjE)
    fix line items k v pre post
    assume o: "loads line = Inr (PDict items)" and k: "k \<in> set flds"
      and d: "dict_lookup items k = Some v" and nb: "number_or_boolean v"
    have g: "py_get (PDict items) k (PStr []) = Inr v" using d by simp
    have e: "py_encode v = Inl AttributeError" using second nb by simp
    obtain e' where f: "cells (PDict items) flds = Inl e'"
      using cells_fail [OF k g e] by blast
    have nc: "\<not> converts loads flds line" using o f by (simp add: converts_def)
    have "raised loads flds (pre @ line # post) \<noteq> None"
      using raised_stop [OF nc, of pre post] o f by (simp split: option.splits)
    then show "snd (write_csv loads fs (pre @ line # post) outcsv flds) \<noteq> None"
      by (rule write_csv_fails)
  qed
  show ?thesis using first second third by (intro conjI)
qed

theorem string_values_round_trip_witness:
  "''listings.csv'' \<notin> denied fs0
   \<and> list_all (valid_line json_loads listings_fields) [camera_line, cafe_line]
   \<and> (\<exists>text rows.
         files (fst (write_csv json_loads fs0 [camera_line, cafe_line] ''listings.csv''
                  listings_fields)) ''listings.csv'' = Some text
         \<and> csv_reader text = Some rows
         \<and> length rows = length [camera_line, cafe_line] + 1
         \<and> (\<forall>j i items.
                  j < length [camera_line, cafe_line] \<and> i < length listings_fields
                  \<and> json_loads ([camera_line, cafe_line] ! j) = Inr (PDict items)
                  \<longrightarrow> (dict_lookup items (listings_fields ! i) = None \<longrightarrow> rows ! (j + 1) ! i = [])
                      \<and> (\<forall>u. dict_lookup items (listings_fields ! i) = Some (PUnicode u)
                           \<longrightarrow> rows ! (j + 1) ! i = c_string (encode_utf8 u)
                               \<and> (list_all (\<lambda>c. 0 < c \<and> c < 0x110000) u
                                      \<and> no_surrogate_pair u
                                    \<longrightarrow> decode_utf8 (rows ! (j + 1) ! i) = Some u))))
   \<and> json_loads cafe_line
       = Inr (PDict [(map of_char ''title'',
                      PUnicode [0x43, 0x61, 0x66, 0xE9, 0x20, 0x63, 0x72, 0xE8, 0x6D, 0x65]),
                     (map of_char ''price'', PUnicode (map of_char ''3,50''))])
   \<and> list_all (\<lambda>c. 0 < c \<and> c < 0x110000)
         [0x43 :: nat, 0x61, 0x66, 0xE9, 0x20, 0x63, 0x72, 0xE8, 0x6D, 0x65]
   \<and> no_surrogate_pair [0x43, 0x61, 0x66, 0xE9, 0x20, 0x63, 0x72, 0xE8, 0x6D, 0x65]
   \<and> map_option (\<lambda>rows. rows ! 2)
         (csv_reader (the (files (fst (write_csv json_loads fs0 [camera_line, cafe_line]
            ''listings.csv'' listings_fields)) ''listings.csv'')))
       = Some [''Caf'' @ [CHR 0xC3, CHR 0xA9] @ '' cr'' @ [CHR 0xC3, CHR 0xA8] @ ''me'',
               [], [], ''3,50'']
   \<and> decode_utf8 (''Caf'' @ [CHR 0xC3, CHR 0xA9] @ '' cr'' @ [CHR 0xC3, CHR 0xA8] @ ''me'')
       = Some [0x43, 0x61, 0x66, 0xE9, 0x20, 0x63, 0x72, 0xE8, 0x6D, 0x65]"
proof -
  have h1: "''listings.csv'' \<notin> denied fs0" by (simp add: fs0_def)
  have h2: "list_all (valid_line json_loads listings_fields) [camera_line, cafe_line]"
    by code_simp
  have h3: "json_loads cafe_line
       = Inr (PDict [(map of_char ''title'',
                      PUnicode [0x43, 0x61, 0x66, 0xE9, 0x20, 0x63, 0x72, 0xE8, 0x6D, 0x65]),
                     (map of_char ''price'', PUnicode (map of_char ''3,50''))])"
    by code_simp
  have h4: "map_option (\<lambda>rows. rows ! 2)
         (csv_reader (the (files (fst (write_csv json_loads fs0 [camera_line, cafe_line]
            ''listings.csv'' listings_fields)) ''listings.csv'')))
       = Some [''Caf'' @ [CHR 0xC3, CHR 0xA9] @ '' cr'' @ [CHR 0xC3, CHR 0xA8] @ ''me'',
               [], [], ''3,50'']"
    by code_simp
  have h5: "decode_utf8 (''Caf'' @ [CHR 0xC3, CHR 0xA9] @ '' cr'' @ [CHR 0xC3, CHR 0xA8] @ ''me'')
       = Some [0x43, 0x61, 0x66, 0xE9, 0x20, 0x63, 0x72, 0xE8, 0x6D, 0x65]"
    by code_simp
  have h6: "list_all (\<lambda>c. 0 < c \<and> c < 0x110000)
         [0x43 :: nat, 0x61, 0x66, 0xE9, 0x20, 0x63, 0x72, 0xE8, 0x6D, 0x65]"
    by simp
  have h7: "no_surrogate_pair [0x43, 0x61, 0x66, 0xE9, 0x20, 0x63, 0x72, 0xE8, 0x6D, 0x65]"
    by (simp add: high_surrogate_def)
  have c: "\<exists>text rows.
         files (fst (write_csv json_loads fs0 [camera_line, cafe_line] ''listings.csv''
                  listings_fields)) ''listings.csv'' = Some text
         \<and> csv_reader text = Some rows
         \<and> length rows = length [camera_line, cafe_line] + 1
         \<and> (\<forall>j i items.
                  j < length [camera_line, cafe_line] \<and> i < length listings_fields
                  \<and> json_loads ([camera_line, cafe_line] ! j) = Inr (PDict items)
                  \<longrightarrow> (dict_lookup items (listings_fields ! i) = None \<longrightarrow> rows ! (j + 1) ! i = [])
                      \<and> (\<forall>u. dict_lookup items (listings_fields ! i) = Some (PUnicode u)
                           \<longrightarrow> rows ! (j + 1) ! i = c_string (encode_utf8 u)
                               \<and> (list_all (\<lambda>c. 0 < c \<and> c < 0x110000) u
                                      \<and> no_surrogate_pair u
                                    \<longrightarrow> decode_utf8 (rows ! (j + 1) ! i) = Some u)))"
    using string_values_round_trip [OF h1 h2] by (elim conjE)
  show ?thesis using h1 h2 c h3 h6 h7 h4 h5 by (intro conjI)
qed

text \<open>
  C7. A line that does not decode makes the job fail: an exception leaves
  \<open>write_csv\<close>, and it is the decoder's own when the lines before raised none. The
  lines are taken in order and none is skipped: the file system left behind is the one
  the lines before the bad line leave, so no row is written for the bad line or for any
  line after it.
\<close>

theorem malformed_line_fails:
  assumes "loads line = Inl e"
  shows "snd (write_csv loads fs (pre @ line # post) outcsv flds) \<noteq> None
       \<and> fst (write_csv loads fs (pre @ line # post) outcsv flds)
           = fst (write_csv loads fs pre outcsv flds)
       \<and> (snd (write_csv loads fs pre outcsv flds) = None
            \<longrightarrow> snd (write_csv loads fs (pre @ line # post) outcsv flds) = Some e)"
proof -
  have nc: "\<not> converts loads flds line" using assms by (simp add: converts_def)
  have w: "written_rows loads flds (pre @ line # post) = written_rows loads flds pre"
    by (rule written_rows_stop [OF nc])
  have r: "raised loads flds (pre @ line # post)
             = (case raised loads flds pre of Some e' \<Rightarrow> Some e' | None \<Rightarrow> Some e)"
    using raised_stop [OF nc, of pre post] assms by (simp split: option.splits)
  show ?thesis
  proof (cases "outcsv \<in> denied fs")
    case True
    then show ?thesis by (simp add: write_csv_denied)
  next
    case False
    then show ?thesis using w r by (simp add: write_csv_eq split: option.splits)
  qed
qed

theorem malformed_line_fails_witness:
  "json_loads ''not json'' = Inl ValueError
   \<and> snd (write_csv json_loads fs0 ([camera_line] @ ''not json'' # [camera_line])
            ''listings.csv'' listings_fields) = Some ValueError
   \<and> fst (write_csv json_loads fs0 ([camera_line] @ ''not json'' # [camera_line])
            ''listings.csv'' listings_fields)
       = fst (write_csv json_loads fs0 [camera_line] ''listings.csv'' listings_fields)"
proof -
  have h: "json_loads ''not json'' = Inl ValueError" by code_simp
  have p: "snd (write_csv json_loads fs0 [camera_line] ''listings.csv'' listings_fields) = None"
    by code_simp
  show ?thesis
    using malformed_line_fails [where loads = json_loads and line = "''not json''"
        and e = ValueError and fs = fs0 and pre = "[camera_line]" and post = "[camera_line]"
        and outcsv = "''listings.csv''" and flds = listings_fields] h p
    by blast
qed

text \<open>
  C8. When a requested field is present in a record with the value null, the lookup
  returns the null (the empty-string default is for absent keys only), encoding it
  raises \<open>AttributeError\<close>, and the job aborts; when the destination opens, the lines
  before convert and the fields before this one give their cells, the exception that
  leaves \<open>write_csv\<close> is that \<open>AttributeError\<close>.
\<close>

theorem null_value_aborts:
  assumes "loads line = Inr (PDict items)"
    and "k \<in> set flds"
    and "dict_lookup items k = Some PNone"
  shows "py_get (PDict items) k (PStr []) = Inr PNone
       \<and> py_encode PNone = Inl AttributeError
       \<and> snd (write_csv loads fs (pre @ line # post) outcsv flds) \<noteq> None
       \<and> (outcsv \<notin> denied fs \<and> list_all (converts loads flds) pre
            \<and> (\<exists>ks cs ks'. flds = ks @ k # ks' \<and> cells (PDict items) ks = Inr cs)
          \<longrightarrow> snd (write_csv loads fs (pre @ line # post) outcsv flds) = Some AttributeError)"
proof -
  have g: "py_get (PDict items) k (PStr []) = Inr PNone" using assms(3) by simp
  have e: "py_encode PNone = Inl AttributeError" by simp
  obtain e' where c: "cells (PDict items) flds = Inl e'"
    using cells_fail [OF assms(2) g e] by blast
  have nc: "\<not> converts loads flds line" using assms(1) c by (simp add: converts_def)
  have r: "raised loads flds (pre @ line # post) \<noteq> None"
    using raised_stop [OF nc, of pre post] assms(1) c
    by (simp split: option.splits)
  have a: "snd (write_csv loads fs (pre @ line # post) outcsv flds) \<noteq> None"
    by (rule write_csv_fails [OF r])
  have p: "snd (write_csv loads fs (pre @ line # post) outcsv flds) = Some AttributeError"
    if w: "outcsv \<notin> denied fs" and pre: "list_all (converts loads flds) pre"
      and f: "flds = ks @ k # ks'" and cs: "cells (PDict items) ks = Inr cs" for ks cs ks'
  proof -
    have "cells (PDict items) flds = Inl AttributeError"
      unfolding f using cs assms(3) by (simp add: cells_append)
    then have "raised loads flds [line] = Some AttributeError"
      using assms(1) by simp
    then have "raised loads flds (pre @ line # post) = Some AttributeError"
      using raised_stop [OF nc, of pre post] converts_all [OF pre] by simp
    then show ?thesis using w by (simp add: write_csv_eq)
  qed
  show ?thesis using g e a p by blast
qed


theorem null_value_aborts_witness:
  "json_loads null_price_line = Inr (PDict (tripod_items PNone))
   \<and> ''price'' \<in> set listings_fields
   \<and> dict_lookup (tripod_items PNone) ''price'' = Some PNone
   \<and> py_get (PDict (tripod_items PNone)) ''price'' (PStr []) = Inr PNone
   \<and> py_encode PNone = Inl AttributeError
   \<and> snd (write_csv json_loads fs0 ([camera_line] @ null_price_line # [camera_line])
             ''listings.csv'' listings_fields) = Some AttributeError"
proof -
  have h1: "json_loads null_price_line = Inr (PDict (tripod_items PNone))" by code_simp
  have h2: "''price'' \<in> set listings_fields" by (simp add: listings_fields_def)
  have h3: "dict_lookup (tripod_items PNone) ''price'' = Some PNone" by code_simp
  have h4: "''listings.csv'' \<notin> denied fs0" by (simp add: fs0_def)
  have h5: "list_all (converts json_loads listings_fields) [camera_line]" by code_simp
  have h6: "listings_fields = [''title'', ''manufacturer'', ''currency''] @ ''price'' # []
            \<and> cells (PDict (tripod_items PNone)) [''title'', ''manufacturer'', ''currency'']
                = Inr [''Tripod'', [], []]"
    by code_simp
  show ?thesis
    using null_value_aborts [where loads = json_loads and line = null_price_line
        and items = "tripod_items PNone" and k = "''price''" and flds = listings_fields
        and fs = fs0 and pre = "[camera_line]" and post = "[camera_line]"
        and outcsv = "''listings.csv''"]
      h1 h2 h3 h4 h5 h6 by blast
qed

text \<open>
  C9. The destination is opened, created or truncated, and the header written before
  any line is decoded: when the destination opens, the lines before line \<open>n\<close> convert
  and line \<open>n\<close> does not decode, \<open>write_csv\<close> raises the decoder's exception and
  leaves in the destination the header row and the rows of the \<open>n - 1\<close> lines before,
  whatever the file held; what was written is not taken back.
\<close>

theorem output_before_failure_kept:
  assumes "outcsv \<notin> denied fs"
    and "list_all (converts loads flds) pre"
    and "loads line = Inl e"
  shows "\<exists>rows. list_all2 (\<lambda>l r. \<exists>obj. loads l = Inr obj \<and> cells obj flds = Inr r) pre rows
           \<and> write_csv loads fs (pre @ line # post) outcsv flds
               = (fs\<lparr>files := (files fs)(outcsv \<mapsto> concat (map csv_line (flds # rows)))\<rparr>, Some e)
           \<and> csv_reader (concat (map csv_line (flds # rows)))
               = Some (map (map c_string) (flds # rows))"
proof -
  have nc: "\<not> converts loads flds line" using assms(3) by (simp add: converts_def)
  have w: "written_rows loads flds (pre @ line # post) = written_rows loads flds pre"
    by (rule written_rows_stop [OF nc])
  have r: "raised loads flds (pre @ line # post) = Some e"
    using raised_stop [OF nc, of pre post] converts_all [OF assms(2)] assms(3) by simp
  have "write_csv loads fs (pre @ line # post) outcsv flds
          = (fs\<lparr>files := (files fs)(outcsv \<mapsto>
               concat (map csv_line (flds # written_rows loads flds pre)))\<rparr>, Some e)"
    using write_csv_eq [OF assms(1), of loads "pre @ line # post" flds] w r by simp
  then show ?thesis
    using converts_rows [OF assms(2)] csv_reader_lines [of "flds # written_rows loads flds pre"]
    by blast
qed

theorem output_before_failure_kept_witness:
  "''listings.csv'' \<notin> denied fs0
   \<and> list_all (converts json_loads listings_fields) [camera_line]
   \<and> json_loads ''not json'' = Inl ValueError
   \<and> files fs0 ''listings.csv'' = Some ''stale''
   \<and> (\<exists>rows. list_all2 (\<lambda>l r. \<exists>obj. json_loads l = Inr obj \<and> cells obj listings_fields = Inr r)
                [camera_line] rows
          \<and> write_csv json_loads fs0 ([camera_line] @ ''not json'' # [widget_line])
               ''listings.csv'' listings_fields
              = (fs0\<lparr>files := (files fs0)(''listings.csv'' \<mapsto>
                   concat (map csv_line (listings_fields # rows)))\<rparr>, Some ValueError)
          \<and> csv_reader (concat (map csv_line (listings_fields # rows)))
              = Some (map (map c_string) (listings_fields # rows)))
   \<and> files (fst (write_csv json_loads fs0 ([camera_line] @ ''not json'' # [widget_line])
                ''listings.csv'' listings_fields)) ''listings.csv''
       = Some (csv_line [''title'', ''manufacturer'', ''currency'', ''price'']
               @ csv_line [''Zoom 10\", black'', ''Acme'', ''CAD'', ''35.99''])"
proof -
  have h1: "''listings.csv'' \<notin> denied fs0" by (simp add: fs0_def)
  have h2: "list_all (converts json_loads listings_fields) [camera_line]" by code_simp
  have h3: "json_loads ''not json'' = Inl ValueError" by code_simp
  have h4: "files fs0 ''listings.csv'' = Some ''stale''" by (simp add: fs0_def)
  have h5: "files (fst (write_csv json_loads fs0 ([camera_line] @ ''not json'' # [widget_line])
                ''listings.csv'' listings_fields)) ''listings.csv''
       = Some (csv_line [''title'', ''manufacturer'', ''currency'', ''price'']
               @ csv_line [''Zoom 10\", black'', ''Acme'', ''CAD'', ''35.99''])"
    by code_simp
  show ?thesis
    using output_before_failure_kept [where loads = json_loads and line = "''not json''"
        and e = ValueError and fs = fs0 and pre = "[camera_line]" and post = "[widget_line]"
        and outcsv = "''listings.csv''" and flds = listings_fields, OF h1 h2 h3] h1 h2 h3 h4 h5
    by blast
qed

text \<open>
  C10. The contents of the destination and the exception raised are a function of the
  input lines and the field list alone: two runs on the same lines and fields, from any
  two file systems and to any two destinations that open, leave the same contents and
  end the same way.
\<close>

theorem same_input_same_output:
  assumes "outcsv \<notin> denied fs" and "outcsv' \<notin> denied fs'"
  shows "files (fst (write_csv loads fs jsonlines outcsv flds)) outcsv
           = files (fst (write_csv loads fs' jsonlines outcsv' flds)) outcsv'
       \<and> snd (write_csv loads fs jsonlines outcsv flds)
           = snd (write_csv loads fs' jsonlines outcsv' flds)"
  using assms by (simp add: write_csv_eq)

theorem same_input_same_output_witness:
  "''listings.csv'' \<notin> denied fs0
   \<and> ''out/l.csv'' \<notin> denied \<lparr>files = Map.empty, denied = {}\<rparr>
   \<and> files (fst (write_csv json_loads fs0 [camera_line, null_price_line] ''listings.csv''
                listings_fields)) ''listings.csv''
       = files (fst (write_csv json_loads \<lparr>files = Map.empty, denied = {}\<rparr>
                [camera_line, null_price_line] ''out/l.csv'' listings_fields)) ''out/l.csv''
   \<and> snd (write_csv json_loads fs0 [camera_line, null_price_line] ''listings.csv''
            listings_fields)
       = snd (write_csv json_loads \<lparr>files = Map.empty, denied = {}\<rparr>
                [camera_line, null_price_line] ''out/l.csv'' listings_fields)"
proof -
  have h1: "''listings.csv'' \<notin> denied fs0" by (simp add: fs0_def)
  have h2: "''out/l.csv'' \<notin> denied \<lparr>files = Map.empty, denied = {}\<rparr>" by simp
  show ?thesis
    using same_input_same_output [OF h1 h2, of json_loads "[camera_line, null_price_line]"
        listings_fields] h1 h2
    by blast
qed

end
